theory Spec2Isabelle
  imports Main "HOL-Library.Sublist" "HOL-Library.Multiset" "HOL-Library.List_Lexorder"
    "HOL-Library.Char_ord"
begin

section \<open>The reader's position, chapter, search and annotation logic\<close>

text \<open>
  The development embeds \<^verbatim>\<open>app/services/cfi.ts\<close>, \<^verbatim>\<open>app/services/search.ts\<close> and the
  bookmark and highlight hooks. Position tokens (CFIs), labels and hrefs are strings, and
  the length of a string counts its characters as \<^verbatim>\<open>String.length\<close> counts code units. The
  comparison of two tokens (\<^verbatim>\<open>EpubCFI.compare\<close>), the section index of a token
  (\<^verbatim>\<open>EpubCFI.spinePos\<close>) and the text of a parsed token (\<^verbatim>\<open>EpubCFI.toString\<close>) belong to
  the epub.js library: they are parameters \<open>cmp\<close>, \<open>spinePos\<close> and \<open>cfiToString\<close> of the
  functions that call them, as is \<open>validCfi\<close>, the strings its constructor accepts.
\<close>

subsection \<open>The comparison primitive\<close>

text \<open>
  What the code relies on when it hands \<open>cmp\<close> to a sort or scans an ordered list: the
  result is zero on identical tokens, swapping the arguments swaps its sign, and "at or
  before" is transitive. These are the conditions under which ECMAScript defines the result
  of \<^verbatim>\<open>Array.prototype.sort\<close>.
\<close>

definition consistent_compare :: "('a \<Rightarrow> 'a \<Rightarrow> int) \<Rightarrow> bool" where
  "consistent_compare cmp \<longleftrightarrow>
     (\<forall>a. cmp a a = 0) \<and>
     (\<forall>a b. (cmp a b < 0) = (0 < cmp b a)) \<and>
     (\<forall>a b c. cmp a b \<le> 0 \<longrightarrow> cmp b c \<le> 0 \<longrightarrow> cmp a c \<le> 0)"

text \<open>
  Modelled from the spec: the comparison primitive and the section index of the rendering
  collaborator (\<^verbatim>\<open>compare\<close> and \<^verbatim>\<open>sectionIndex\<close> of the spec, \<^verbatim>\<open>EpubCFI.compare\<close> and
  \<^verbatim>\<open>spinePos\<close> in the code), which belong to epub.js and are not among the sources. A
  position token stands for a place of the document, the index of its section and a place
  inside the section; the places are totally ordered, sections first. \<open>place\<close> reads the
  place off the opaque token. \<open>specCompare\<close> is negative, zero or positive as the first
  token is before, the same as, or after the second.
\<close>

definition specCompare :: "(string \<Rightarrow> int \<times> 'w::linorder) \<Rightarrow> string \<Rightarrow> string \<Rightarrow> int" where
  "specCompare place a b =
     (if fst (place a) < fst (place b) \<or>
         (fst (place a) = fst (place b) \<and> snd (place a) < snd (place b)) then -1
      else if place a = place b then 0
      else 1)"

definition specSectionIndex :: "(string \<Rightarrow> int \<times> 'w::linorder) \<Rightarrow> string \<Rightarrow> int" where
  "specSectionIndex place a = fst (place a)"

subsection \<open>Array.prototype.sort\<close>

text \<open>
  \<^verbatim>\<open>xs.sort(f)\<close> is a stable sort: it orders by the sign of \<open>f a b\<close> and keeps elements that
  compare equal in their original order. Insertion from the right, each element placed
  before the first element it does not follow, computes that result.
\<close>

fun sort_insert :: "('a \<Rightarrow> 'a \<Rightarrow> int) \<Rightarrow> 'a \<Rightarrow> 'a list \<Rightarrow> 'a list" where
  "sort_insert f x [] = [x]"
| "sort_insert f x (y # ys) = (if f x y \<le> 0 then x # y # ys else y # sort_insert f x ys)"

fun array_sort :: "('a \<Rightarrow> 'a \<Rightarrow> int) \<Rightarrow> 'a list \<Rightarrow> 'a list" where
  "array_sort f [] = []"
| "array_sort f (x # xs) = sort_insert f x (array_sort f xs)"

subsection \<open>cfi.ts\<close>

record Bookmark =
  b_id :: string
  b_bookId :: string
  b_cfi :: string
  b_excerpt :: string
  b_createdAt :: nat

datatype HighlightColor = Yellow | Green | Blue | Pink | Purple

record Highlight =
  h_id :: string
  h_bookId :: string
  h_cfiRange :: string
  h_text :: string
  h_color :: HighlightColor
  h_note :: "string option"
  h_createdAt :: nat
  h_updatedAt :: nat

text \<open>
  \<^verbatim>\<open>sortByCfi\<close> pairs every item with its parsed token, sorts the pairs with the negated
  comparison of the tokens' texts, and projects the items out again.
\<close>

definition sortByCfi ::
  "(string \<Rightarrow> string \<Rightarrow> int) \<Rightarrow> (string \<Rightarrow> string) \<Rightarrow> 'a list \<Rightarrow> ('a \<Rightarrow> string) \<Rightarrow> 'a list" where
  "sortByCfi cmp cfiToString items getCfi =
     (let withCfi = map (\<lambda>item. (item, cfiToString (getCfi item))) items;
          sorted = array_sort (\<lambda>a b. - cmp (snd a) (snd b)) withCfi
      in map fst sorted)"

definition sortBookmarksByPosition ::
  "(string \<Rightarrow> string \<Rightarrow> int) \<Rightarrow> (string \<Rightarrow> string) \<Rightarrow> Bookmark list \<Rightarrow> Bookmark list" where
  "sortBookmarksByPosition cmp cfiToString bookmarks = sortByCfi cmp cfiToString bookmarks b_cfi"

definition sortHighlightsByPosition ::
  "(string \<Rightarrow> string \<Rightarrow> int) \<Rightarrow> (string \<Rightarrow> string) \<Rightarrow> Highlight list \<Rightarrow> Highlight list" where
  "sortHighlightsByPosition cmp cfiToString highlights =
     sortByCfi cmp cfiToString highlights h_cfiRange"

text \<open>
  The test inside the loop of \<^verbatim>\<open>isLocationBookmarked\<close>: the two tokens have the same
  section index and compare as equal.
\<close>

definition sameAnchor ::
  "(string \<Rightarrow> string \<Rightarrow> int) \<Rightarrow> (string \<Rightarrow> int) \<Rightarrow> string \<Rightarrow> string \<Rightarrow> bool" where
  "sameAnchor cmp spinePos a b \<longleftrightarrow> spinePos a = spinePos b \<and> cmp a b = 0"

fun firstSameAnchor ::
  "(string \<Rightarrow> string \<Rightarrow> int) \<Rightarrow> (string \<Rightarrow> int) \<Rightarrow> string \<Rightarrow> Bookmark list \<Rightarrow> Bookmark option" where
  "firstSameAnchor cmp spinePos currentCfi [] = None"
| "firstSameAnchor cmp spinePos currentCfi (bookmark # rest) =
     (if sameAnchor cmp spinePos currentCfi (b_cfi bookmark) then Some bookmark
      else firstSameAnchor cmp spinePos currentCfi rest)"

text \<open>\<^verbatim>\<open>!currentCfi\<close> holds for \<^verbatim>\<open>null\<close> and for the empty string.\<close>

definition isLocationBookmarked ::
  "(string \<Rightarrow> string \<Rightarrow> int) \<Rightarrow> (string \<Rightarrow> int) \<Rightarrow> string option \<Rightarrow> Bookmark list \<Rightarrow> Bookmark option" where
  "isLocationBookmarked cmp spinePos currentCfi bookmarks =
     (case currentCfi of
        None \<Rightarrow> None
      | Some c \<Rightarrow> if c = [] then None else firstSameAnchor cmp spinePos c bookmarks)"

subsection \<open>search.ts: chapter entries of a section\<close>

text \<open>
  A \<^verbatim>\<open>NavItem\<close> of the chapter tree. \<^verbatim>\<open>subitems\<close> is optional in the source; an absent
  array is \<open>None\<close>.
\<close>

datatype NavItem =
  NavItem (n_id: string) (n_href: string) (n_label: string) (n_subitems: "NavItem list option")

text \<open>\<^verbatim>\<open>s.split("#")\<close>: the pieces of \<open>s\<close> between the \<open>#\<close> characters, at least one piece.\<close>

fun split_hash :: "string \<Rightarrow> string list" where
  "split_hash [] = [[]]"
| "split_hash (c # cs) =
     (if c = CHR ''#'' then [] # split_hash cs
      else (case split_hash cs of
              [] \<Rightarrow> [[c]]
            | p # ps \<Rightarrow> (c # p) # ps))"

text \<open>\<^verbatim>\<open>s.includes(t)\<close>: \<open>t\<close> occurs in \<open>s\<close> at some offset. \<^verbatim>\<open>s.endsWith(t)\<close> is \<open>suffix t s\<close>.\<close>

fun str_includes :: "string \<Rightarrow> string \<Rightarrow> bool" where
  "str_includes [] t = (t = [])"
| "str_includes (c # cs) t = (prefix t (c # cs) \<or> str_includes cs t)"

definition tocHrefMatches :: "string \<Rightarrow> NavItem \<Rightarrow> bool" where
  "tocHrefMatches spineHref item =
     (let tocHref = hd (split_hash (n_href item))
      in str_includes spineHref tocHref \<or> suffix tocHref spineHref)"

text \<open>
  The inner function \<^verbatim>\<open>traverse\<close> pushes onto the array \<open>matches\<close>; the model passes the
  array in and returns it extended. \<^verbatim>\<open>item.subitems?.length\<close> is truthy for a present,
  non-empty array.
\<close>

fun traverse :: "string \<Rightarrow> NavItem list \<Rightarrow> NavItem list \<Rightarrow> NavItem list"
  and traverse_item :: "string \<Rightarrow> NavItem \<Rightarrow> NavItem list \<Rightarrow> NavItem list" where
  "traverse spineHref [] matches = matches"
| "traverse spineHref (item # items) matches =
     traverse spineHref items (traverse_item spineHref item matches)"
| "traverse_item spineHref (NavItem i h l subs) matches =
     (let matches1 = (if tocHrefMatches spineHref (NavItem i h l subs)
                      then matches @ [NavItem i h l subs] else matches)
      in (case subs of
            None \<Rightarrow> matches1
          | Some children \<Rightarrow>
              if length children \<noteq> 0 then traverse spineHref children matches1 else matches1))"

definition getMatchingTocEntries :: "NavItem list \<Rightarrow> string \<Rightarrow> NavItem list" where
  "getMatchingTocEntries toc spineHref = traverse spineHref toc []"

subsection \<open>search.ts: chapter positions and attribution\<close>

text \<open>A thrown exception or a rejected promise, with its message.\<close>

datatype error = Exception string

record EpubSearchMatch =
  m_cfi :: string
  m_excerpt :: string

record SearchResult =
  r_cfi :: string
  r_excerpt :: string
  r_chapterTitle :: string

record ChapterPosition =
  cp_label :: string
  cp_cfi :: "string option"

text \<open>
  What \<^verbatim>\<open>searchBook\<close> uses of an epub.js \<^verbatim>\<open>Section\<close>: its href; \<^verbatim>\<open>load\<close>, which rejects or
  leaves the parsed document in \<^verbatim>\<open>document\<close>; \<^verbatim>\<open>document.getElementById\<close>;
  \<^verbatim>\<open>cfiFromElement\<close>, which may throw; \<^verbatim>\<open>find\<close>, which may throw.
\<close>

type_synonym Element = nat

record Section =
  s_href :: string
  s_document :: "(string \<Rightarrow> Element option) option"
  s_load :: "error + (string \<Rightarrow> Element option) option"
  s_cfiFromElement :: "Element \<Rightarrow> error + string"
  s_find :: "string \<Rightarrow> error + EpubSearchMatch list"

text \<open>
  \<^verbatim>\<open>String.prototype.trim\<close> on the white space a \<open>char\<close> can hold: tab, line feed, vertical
  tab, form feed, carriage return, space and no-break space.
\<close>

definition is_space :: "char \<Rightarrow> bool" where
  "is_space c \<longleftrightarrow> (of_char c :: nat) \<in> {9, 10, 11, 12, 13, 32, 160}"

definition trim :: "string \<Rightarrow> string" where
  "trim s = rev (dropWhile is_space (rev (dropWhile is_space s)))"

text \<open>
  The body of the loop of \<^verbatim>\<open>getChapterPositions\<close>. \<^verbatim>\<open>href.split("#")[1]\<close> is undefined
  when the href has no \<open>#\<close>; undefined and the empty string are both falsy.
\<close>

definition chapterPosition :: "Section \<Rightarrow> NavItem \<Rightarrow> ChapterPosition" where
  "chapterPosition item chapter =
     (let parts = split_hash (n_href chapter);
          anchor = (if 1 < length parts then Some (parts ! 1) else None);
          cfi =
            (case anchor of
               None \<Rightarrow> None
             | Some a \<Rightarrow>
                 if a = [] then None
                 else (case s_document item of
                         None \<Rightarrow> None
                       | Some document \<Rightarrow>
                           (case document a of
                              None \<Rightarrow> None
                            | Some element \<Rightarrow>
                                (case s_cfiFromElement item element of
                                   Inl e \<Rightarrow> None
                                 | Inr c \<Rightarrow> Some c))))
      in \<lparr>cp_label = trim (n_label chapter), cp_cfi = cfi\<rparr>)"

fun getChapterPositionsLoop ::
  "Section \<Rightarrow> NavItem list \<Rightarrow> ChapterPosition list \<Rightarrow> ChapterPosition list" where
  "getChapterPositionsLoop item [] positions = positions"
| "getChapterPositionsLoop item (chapter # rest) positions =
     getChapterPositionsLoop item rest (positions @ [chapterPosition item chapter])"

definition getChapterPositions :: "Section \<Rightarrow> NavItem list \<Rightarrow> ChapterPosition list" where
  "getChapterPositions item matchingChapters = getChapterPositionsLoop item matchingChapters []"

text \<open>
  The scan of \<^verbatim>\<open>findChapterForMatch\<close> over the sorted chapters: \<open>bestMatch\<close> follows the
  chapters at or before the match and the first chapter after it ends the loop.
\<close>

fun scanChapters ::
  "(string \<Rightarrow> string \<Rightarrow> int) \<Rightarrow> string \<Rightarrow> ChapterPosition list \<Rightarrow> ChapterPosition \<Rightarrow> ChapterPosition" where
  "scanChapters cmp matchCfi [] bestMatch = bestMatch"
| "scanChapters cmp matchCfi (chapter # rest) bestMatch =
     (if cmp (the (cp_cfi chapter)) matchCfi \<le> 0
      then scanChapters cmp matchCfi rest chapter
      else bestMatch)"

definition sortedChapters ::
  "(string \<Rightarrow> string \<Rightarrow> int) \<Rightarrow> ChapterPosition list \<Rightarrow> ChapterPosition list" where
  "sortedChapters cmp chaptersWithCfi =
     array_sort (\<lambda>a b. cmp (the (cp_cfi a)) (the (cp_cfi b))) chaptersWithCfi"

text \<open>
  \<^verbatim>\<open>a.cfi!\<close> is read only from chapters that passed the filter \<^verbatim>\<open>c.cfi !== null\<close>, so \<open>the\<close>
  is applied to \<open>Some\<close> values only.
\<close>

definition findChapterForMatch ::
  "(string \<Rightarrow> string \<Rightarrow> int) \<Rightarrow> string \<Rightarrow> ChapterPosition list \<Rightarrow> string \<Rightarrow> string" where
  "findChapterForMatch cmp matchCfi chapters fallbackLabel =
     (let chaptersWithCfi = filter (\<lambda>c. cp_cfi c \<noteq> None) chapters
      in if length chapters = 0 then fallbackLabel
         else if length chapters = 1 \<or> length chaptersWithCfi = 0 then cp_label (chapters ! 0)
         else (let sorted = sortedChapters cmp chaptersWithCfi;
                   bestMatch = sorted ! 0
               in cp_label (scanChapters cmp matchCfi sorted bestMatch)))"

subsection \<open>search.ts: the exceptions of the EpubCFI constructor\<close>

text \<open>
  \<^verbatim>\<open>new EpubCFI(s)\<close> throws a TypeError on a string that is not a CFI; \<open>validCfi\<close>, a
  parameter like \<open>cmp\<close>, tells the strings the constructor accepts. \<^verbatim>\<open>compare(a, b)\<close>
  constructs an EpubCFI from each of its two arguments before it compares them.
\<close>

definition typeError :: error where
  "typeError = Exception ''not a valid argument for EpubCFI''"

definition compareChecked ::
  "(string \<Rightarrow> bool) \<Rightarrow> (string \<Rightarrow> string \<Rightarrow> int) \<Rightarrow> string \<Rightarrow> string \<Rightarrow> error + int" where
  "compareChecked validCfi cmp a b =
     (if validCfi a \<and> validCfi b then Inr (cmp a b) else Inl typeError)"

text \<open>\<^verbatim>\<open>xs.sort(f)\<close> with a comparison that may throw: the first exception ends the sort.\<close>

fun sort_insert_checked ::
  "('a \<Rightarrow> 'a \<Rightarrow> error + int) \<Rightarrow> 'a \<Rightarrow> 'a list \<Rightarrow> error + 'a list" where
  "sort_insert_checked f x [] = Inr [x]"
| "sort_insert_checked f x (y # ys) =
     (case f x y of
        Inl e \<Rightarrow> Inl e
      | Inr r \<Rightarrow>
          if r \<le> 0 then Inr (x # y # ys)
          else (case sort_insert_checked f x ys of
                  Inl e \<Rightarrow> Inl e
                | Inr zs \<Rightarrow> Inr (y # zs)))"

fun array_sort_checked :: "('a \<Rightarrow> 'a \<Rightarrow> error + int) \<Rightarrow> 'a list \<Rightarrow> error + 'a list" where
  "array_sort_checked f [] = Inr []"
| "array_sort_checked f (x # xs) =
     (case array_sort_checked f xs of
        Inl e \<Rightarrow> Inl e
      | Inr ys \<Rightarrow> sort_insert_checked f x ys)"

fun scanChaptersChecked ::
  "(string \<Rightarrow> bool) \<Rightarrow> (string \<Rightarrow> string \<Rightarrow> int) \<Rightarrow> string \<Rightarrow> ChapterPosition list \<Rightarrow>
   ChapterPosition \<Rightarrow> error + ChapterPosition" where
  "scanChaptersChecked validCfi cmp matchCfi [] bestMatch = Inr bestMatch"
| "scanChaptersChecked validCfi cmp matchCfi (chapter # rest) bestMatch =
     (case compareChecked validCfi cmp (the (cp_cfi chapter)) matchCfi of
        Inl e \<Rightarrow> Inl e
      | Inr comparison \<Rightarrow>
          if comparison \<le> 0 then scanChaptersChecked validCfi cmp matchCfi rest chapter
          else Inr bestMatch)"

text \<open>
  \<^verbatim>\<open>findChapterForMatch\<close> as \<^verbatim>\<open>searchBook\<close> runs it, an exception of the constructor being
  the value \<open>Inl\<close>: the two early returns construct nothing; the comparison of the sort
  constructs \<^verbatim>\<open>new EpubCFI(a.cfi!)\<close> and compares; \<^verbatim>\<open>new EpubCFI(matchCfi)\<close> follows; the
  loop compares each chapter with the match. When nothing throws it returns what
  \<open>findChapterForMatch\<close> above returns.
\<close>

definition findChapterForMatchChecked ::
  "(string \<Rightarrow> bool) \<Rightarrow> (string \<Rightarrow> string \<Rightarrow> int) \<Rightarrow> string \<Rightarrow> ChapterPosition list \<Rightarrow> string \<Rightarrow>
   error + string" where
  "findChapterForMatchChecked validCfi cmp matchCfi chapters fallbackLabel =
     (let chaptersWithCfi = filter (\<lambda>c. cp_cfi c \<noteq> None) chapters
      in if length chapters = 0 then Inr fallbackLabel
         else if length chapters = 1 \<or> length chaptersWithCfi = 0
         then Inr (cp_label (chapters ! 0))
         else (case array_sort_checked
                      (\<lambda>a b. compareChecked validCfi cmp (the (cp_cfi a)) (the (cp_cfi b)))
                      chaptersWithCfi of
                 Inl e \<Rightarrow> Inl e
               | Inr ordered \<Rightarrow>
                   if \<not> validCfi matchCfi then Inl typeError
                   else (case scanChaptersChecked validCfi cmp matchCfi ordered
                                (ordered ! 0) of
                           Inl e \<Rightarrow> Inl e
                         | Inr bestMatch \<Rightarrow> Inr (cp_label bestMatch))))"

subsection \<open>search.ts: searchBook\<close>

text \<open>
  The calls \<^verbatim>\<open>searchBook\<close> makes on the sections and the console are logged as events;
  the state of the loop is the \<open>results\<close> array and that log.
\<close>

datatype event =
  Load string
| Find string string
| Warn string error
| Unload string

record Book =
  bk_toc :: "NavItem list option"
  bk_spine :: "Section list"

record Rendition =
  rendition_book :: Book

text \<open>
  The loop over the matches of a section pushes onto \<open>results\<close> one match after the other.
  An exception of \<^verbatim>\<open>findChapterForMatch\<close> ends the loop: the results pushed before it stay
  in the array, and the exception goes to the \<^verbatim>\<open>catch\<close> of the section.
\<close>

fun pushMatches ::
  "(string \<Rightarrow> bool) \<Rightarrow> (string \<Rightarrow> string \<Rightarrow> int) \<Rightarrow> ChapterPosition list \<Rightarrow> string \<Rightarrow>
   EpubSearchMatch list \<Rightarrow> SearchResult list \<Rightarrow> error option \<times> SearchResult list" where
  "pushMatches validCfi cmp chapterPositions href [] results = (None, results)"
| "pushMatches validCfi cmp chapterPositions href (match # rest) results =
     (case findChapterForMatchChecked validCfi cmp (m_cfi match) chapterPositions href of
        Inl e \<Rightarrow> (Some e, results)
      | Inr chapterTitle \<Rightarrow>
          pushMatches validCfi cmp chapterPositions href rest
            (results @ [\<lparr>r_cfi = m_cfi match, r_excerpt = m_excerpt match,
                         r_chapterTitle = chapterTitle\<rparr>]))"

text \<open>
  One iteration of the loop over the spine: the \<^verbatim>\<open>try\<close> block, the \<^verbatim>\<open>catch\<close> that warns,
  and the \<^verbatim>\<open>finally\<close> that unloads. \<^verbatim>\<open>load\<close>, \<^verbatim>\<open>find\<close> and the attribution of a match
  are the steps of the block that can fail.
\<close>

definition searchSection ::
  "(string \<Rightarrow> bool) \<Rightarrow> (string \<Rightarrow> string \<Rightarrow> int) \<Rightarrow> NavItem list \<Rightarrow> string \<Rightarrow> Section \<Rightarrow>
   SearchResult list \<times> event list \<Rightarrow> SearchResult list \<times> event list" where
  "searchSection validCfi cmp toc query item st =
     (let results = fst st;
          log = snd st @ [Load (s_href item)];
          st1 =
            (case s_load item of
               Inl e \<Rightarrow> (results, log @ [Warn (s_href item) e])
             | Inr document \<Rightarrow>
                 (let loaded = item\<lparr>s_document := document\<rparr>;
                      matchingChapters = getMatchingTocEntries toc (s_href loaded);
                      chapterPositions = getChapterPositions loaded matchingChapters;
                      log1 = log @ [Find (s_href loaded) query]
                  in (case s_find loaded query of
                        Inl e \<Rightarrow> (results, log1 @ [Warn (s_href item) e])
                      | Inr matches \<Rightarrow>
                          (case pushMatches validCfi cmp chapterPositions (s_href loaded)
                                  matches results of
                             (None, results1) \<Rightarrow> (results1, log1)
                           | (Some e, results1) \<Rightarrow>
                               (results1, log1 @ [Warn (s_href item) e])))))
      in (fst st1, snd st1 @ [Unload (s_href item)]))"

fun searchSpine ::
  "(string \<Rightarrow> bool) \<Rightarrow> (string \<Rightarrow> string \<Rightarrow> int) \<Rightarrow> NavItem list \<Rightarrow> string \<Rightarrow> Section list \<Rightarrow>
   SearchResult list \<times> event list \<Rightarrow> SearchResult list \<times> event list" where
  "searchSpine validCfi cmp toc query [] st = st"
| "searchSpine validCfi cmp toc query (item # items) st =
     searchSpine validCfi cmp toc query items (searchSection validCfi cmp toc query item st)"

text \<open>
  \<^verbatim>\<open>searchBook\<close> returns the value its promise resolves to, with the log of events. The
  guard rejects a query that is empty after trimming or shorter than two code units.
\<close>

definition searchBook ::
  "(string \<Rightarrow> bool) \<Rightarrow> (string \<Rightarrow> string \<Rightarrow> int) \<Rightarrow> Rendition \<Rightarrow> string \<Rightarrow>
   SearchResult list \<times> event list" where
  "searchBook validCfi cmp rendition query =
     (if trim query = [] \<or> length query < 2 then ([], [])
      else (let book = rendition_book rendition;
                toc = (case bk_toc book of None \<Rightarrow> [] | Some t \<Rightarrow> t);
                spineItems = bk_spine book
            in searchSpine validCfi cmp toc query spineItems ([], [])))"

subsection \<open>The persistent store\<close>

text \<open>
  The object stores of \<^verbatim>\<open>services/db\<close> are maps from id to record. \<^verbatim>\<open>db.add\<close> rejects
  when the key is already present; \<^verbatim>\<open>db.delete\<close> accepts any key. The values of
  \<^verbatim>\<open>crypto.randomUUID()\<close> and \<^verbatim>\<open>Date.now()\<close> are arguments \<open>uuid\<close> and \<open>now\<close>.
\<close>

definition createBookmark ::
  "string \<Rightarrow> nat \<Rightarrow> string \<Rightarrow> string \<Rightarrow> string \<Rightarrow> (string \<rightharpoonup> Bookmark) \<Rightarrow>
   error + Bookmark \<times> (string \<rightharpoonup> Bookmark)" where
  "createBookmark uuid now bookId cfi excerpt store =
     (let bookmark = \<lparr>b_id = uuid, b_bookId = bookId, b_cfi = cfi, b_excerpt = excerpt,
                       b_createdAt = now\<rparr>
      in if store uuid \<noteq> None then Inl (Exception ''ConstraintError'')
         else Inr (bookmark, store(uuid \<mapsto> bookmark)))"

definition deleteBookmark :: "string \<Rightarrow> (string \<rightharpoonup> Bookmark) \<Rightarrow> (string \<rightharpoonup> Bookmark)" where
  "deleteBookmark ident store = store(ident := None)"

definition createHighlight ::
  "string \<Rightarrow> nat \<Rightarrow> string \<Rightarrow> string \<Rightarrow> string \<Rightarrow> HighlightColor \<Rightarrow> string option \<Rightarrow>
   (string \<rightharpoonup> Highlight) \<Rightarrow> error + Highlight \<times> (string \<rightharpoonup> Highlight)" where
  "createHighlight uuid now bookId cfiRange text color note store =
     (let highlight = \<lparr>h_id = uuid, h_bookId = bookId, h_cfiRange = cfiRange, h_text = text,
                        h_color = color, h_note = note, h_createdAt = now, h_updatedAt = now\<rparr>
      in if store uuid \<noteq> None then Inl (Exception ''ConstraintError'')
         else Inr (highlight, store(uuid \<mapsto> highlight)))"

subsection \<open>useBookmarks\<close>

text \<open>
  The hook's state: the book, the current location, the \<open>bookmarks\<close> array, the rendition
  behind \<^verbatim>\<open>renditionRef.current\<close> (absent, or its \<^verbatim>\<open>getRange\<close>: it throws, returns null, or
  returns a range whose start container has the given \<^verbatim>\<open>textContent\<close>), and the
  bookmarks object store.
\<close>

record BookmarksHook =
  bm_bookId :: string
  bm_location :: "string option"
  bm_bookmarks :: "Bookmark list"
  bm_getRange :: "(string \<Rightarrow> error + string option option) option"
  bm_store :: "string \<rightharpoonup> Bookmark"

definition extractExcerpt :: "BookmarksHook \<Rightarrow> string \<Rightarrow> string" where
  "extractExcerpt w location =
     (case bm_getRange w of
        None \<Rightarrow> []
      | Some getRange \<Rightarrow>
          (case getRange location of
             Inl e \<Rightarrow> []
           | Inr None \<Rightarrow> []
           | Inr (Some textContent) \<Rightarrow>
               trim (take 100 (case textContent of None \<Rightarrow> [] | Some t \<Rightarrow> t))))"

text \<open>
  \<^verbatim>\<open>handleToggleBookmark\<close>: \<open>Inl\<close> is the rejection of the handler's promise, which leaves
  the state as it was.
\<close>

definition handleToggleBookmark ::
  "(string \<Rightarrow> string \<Rightarrow> int) \<Rightarrow> (string \<Rightarrow> int) \<Rightarrow> string \<Rightarrow> nat \<Rightarrow> BookmarksHook \<Rightarrow>
   error + BookmarksHook" where
  "handleToggleBookmark cmp spinePos uuid now w =
     (case bm_location w of
        None \<Rightarrow> Inr w
      | Some location \<Rightarrow>
          if location = [] then Inr w
          else (case isLocationBookmarked cmp spinePos (Some location) (bm_bookmarks w) of
                  Some existing \<Rightarrow>
                    Inr (w\<lparr>bm_store := deleteBookmark (b_id existing) (bm_store w),
                           bm_bookmarks := filter (\<lambda>b. b_id b \<noteq> b_id existing) (bm_bookmarks w)\<rparr>)
                | None \<Rightarrow>
                    (let excerpt = extractExcerpt w location
                     in (case createBookmark uuid now (bm_bookId w) location excerpt (bm_store w) of
                           Inl e \<Rightarrow> Inl e
                         | Inr (bookmark, store) \<Rightarrow>
                             Inr (w\<lparr>bm_store := store,
                                    bm_bookmarks := bm_bookmarks w @ [bookmark]\<rparr>)))))"

subsection \<open>useNotes\<close>

datatype Stage = ColorPicker | Editing

record HighlightPopupState =
  p_position :: "int \<times> int"
  p_isNew :: bool
  p_stage :: Stage
  p_highlightId :: "string option"
  p_cfiRange :: string
  p_text :: string
  p_color :: HighlightColor
  p_note :: "string option"

text \<open>An overlay registered with \<^verbatim>\<open>rendition.annotations.add\<close>.\<close>

record Annotation =
  a_type :: string
  a_cfiRange :: string
  a_className :: string
  a_fill :: string

definition getColorValue :: "HighlightColor \<Rightarrow> string" where
  "getColorValue color =
     (case color of
        Yellow \<Rightarrow> ''#fef08a''
      | Green \<Rightarrow> ''#86efac''
      | Blue \<Rightarrow> ''#7dd3fc''
      | Pink \<Rightarrow> ''#f9a8d4''
      | Purple \<Rightarrow> ''#d8b4fe'')"

text \<open>The calls issued to the highlight functions of \<^verbatim>\<open>services/db\<close>.\<close>

datatype StoreCall =
  CreateHighlightCall string string string HighlightColor "string option"
| UpdateHighlightCall string
| DeleteHighlightCall string

text \<open>
  The hook's state: the book, the \<open>highlights\<close> array, the popup, the overlays of the
  rendition behind \<^verbatim>\<open>renditionRef.current\<close> (\<open>None\<close> when the ref is null), whether the
  iframe holds a native selection, the highlights object store and the log of store calls.
\<close>

record NotesHook =
  nt_bookId :: string
  nt_highlights :: "Highlight list"
  nt_highlightPopup :: "HighlightPopupState option"
  nt_annotations :: "Annotation list option"
  nt_selection :: bool
  nt_store :: "string \<rightharpoonup> Highlight"
  nt_calls :: "StoreCall list"

text \<open>
  \<^verbatim>\<open>handleColorSelect\<close>: \<open>Inl\<close> is the rejection of the handler's promise by
  \<^verbatim>\<open>createHighlight\<close>, before any state was set.
\<close>

definition handleColorSelect ::
  "string \<Rightarrow> nat \<Rightarrow> HighlightColor \<Rightarrow> NotesHook \<Rightarrow> error + NotesHook" where
  "handleColorSelect uuid now color w =
     (case nt_highlightPopup w of
        None \<Rightarrow> Inr w
      | Some highlightPopup \<Rightarrow>
          (case nt_annotations w of
             None \<Rightarrow> Inr w
           | Some annotations \<Rightarrow>
               if \<not> p_isNew highlightPopup \<or> p_stage highlightPopup \<noteq> ColorPicker
               then Inr (w\<lparr>nt_highlightPopup := Some (highlightPopup\<lparr>p_color := color\<rparr>)\<rparr>)
               else (let cfiRange = p_cfiRange highlightPopup;
                         text = p_text highlightPopup;
                         calls = nt_calls w @
                           [CreateHighlightCall (nt_bookId w) cfiRange text color None]
                     in (case createHighlight uuid now (nt_bookId w) cfiRange text color None
                                (nt_store w) of
                           Inl e \<Rightarrow> Inl e
                         | Inr (highlight, store) \<Rightarrow>
                             Inr (w\<lparr>nt_store := store,
                                    nt_calls := calls,
                                    nt_annotations := Some (annotations @
                                      [\<lparr>a_type = ''highlight'', a_cfiRange = cfiRange,
                                        a_className = [], a_fill = getColorValue color\<rparr>]),
                                    nt_selection := False,
                                    nt_highlights := nt_highlights w @ [highlight],
                                    nt_highlightPopup := Some (highlightPopup
                                      \<lparr>p_isNew := False, p_stage := Editing,
                                       p_highlightId := Some (h_id highlight),
                                       p_color := color, p_note := None\<rparr>)\<rparr>)))))"

text \<open>
  \<^verbatim>\<open>handleCancelHighlight\<close> closes the popup, and clears the native selection when the
  popup was still in the color-picker stage.
\<close>

definition handleCancelHighlight :: "NotesHook \<Rightarrow> NotesHook" where
  "handleCancelHighlight w =
     (let current = nt_highlightPopup w;
          w1 = (case current of
                  None \<Rightarrow> w
                | Some c \<Rightarrow> if p_stage c = ColorPicker then w\<lparr>nt_selection := False\<rparr> else w)
      in w1\<lparr>nt_highlightPopup := None\<rparr>)"

subsection \<open>Notions used in the statements\<close>

text \<open>A chapter with a resolved position, and a chapter whose position is at or before a match.\<close>

definition resolved :: "ChapterPosition \<Rightarrow> bool" where
  "resolved c \<longleftrightarrow> cp_cfi c \<noteq> None"

definition atOrBefore :: "(string \<Rightarrow> string \<Rightarrow> int) \<Rightarrow> string \<Rightarrow> ChapterPosition \<Rightarrow> bool" where
  "atOrBefore cmp matchCfi c \<longleftrightarrow> cmp (the (cp_cfi c)) matchCfi \<le> 0"

definition anchored :: "string \<Rightarrow> string \<Rightarrow> ChapterPosition" where
  "anchored l a = \<lparr>cp_label = l, cp_cfi = Some a\<rparr>"

text \<open>
  \<open>out\<close> is \<open>items\<close> in stable descending order of \<open>pos\<close>: the same items, each at or
  after its successors, and the items at any one position in their original order.
\<close>

definition stable_descending ::
  "(string \<Rightarrow> string \<Rightarrow> int) \<Rightarrow> ('a \<Rightarrow> string) \<Rightarrow> 'a list \<Rightarrow> 'a list \<Rightarrow> bool" where
  "stable_descending cmp pos items out \<longleftrightarrow>
     mset out = mset items \<and>
     sorted_wrt (\<lambda>a b. 0 \<le> cmp (pos a) (pos b)) out \<and>
     (\<forall>p. filter (\<lambda>i. cmp (pos i) p = 0) out = filter (\<lambda>i. cmp (pos i) p = 0) items)"

text \<open>
  The entries of a chapter tree in the order of a traversal that visits an entry before
  its subitems, and the file portion of an href: the part before its first \<open>#\<close>.
\<close>

fun entryWithDescendants :: "NavItem \<Rightarrow> NavItem list" where
  "entryWithDescendants (NavItem i h l subs) =
     NavItem i h l subs #
       (case subs of None \<Rightarrow> [] | Some children \<Rightarrow> concat (map entryWithDescendants children))"

definition tocEntries :: "NavItem list \<Rightarrow> NavItem list" where
  "tocEntries toc = concat (map entryWithDescendants toc)"

definition filePortion :: "string \<Rightarrow> string" where
  "filePortion href = takeWhile (\<lambda>c. c \<noteq> CHR ''#'') href"

text \<open>
  An entry targets a section when the file portion of its href names the section's file:
  it is not empty, and it is the section's href or the part of the section's href behind
  one of its slashes.
\<close>

definition targetsSection :: "string \<Rightarrow> NavItem \<Rightarrow> bool" where
  "targetsSection spineHref entry \<longleftrightarrow>
     (let file = filePortion (n_href entry)
      in file \<noteq> [] \<and> (file = spineHref \<or> suffix (CHR ''/'' # file) spineHref))"

text \<open>The test of the code: the file portion occurs somewhere in the section's href.\<close>

definition fileOccursIn :: "string \<Rightarrow> NavItem \<Rightarrow> bool" where
  "fileOccursIn spineHref entry \<longleftrightarrow> sublist (filePortion (n_href entry)) spineHref"















text \<open>
  At most one bookmark per exact anchor: no two entries of the list have the same anchor,
  whichever of the two is taken as the current position. The bookmarks at a position.
\<close>

fun atMostOnePerAnchor ::
  "(string \<Rightarrow> string \<Rightarrow> int) \<Rightarrow> (string \<Rightarrow> int) \<Rightarrow> Bookmark list \<Rightarrow> bool" where
  "atMostOnePerAnchor cmp spinePos [] = True"
| "atMostOnePerAnchor cmp spinePos (b # bs) =
     ((\<forall>b'\<in>set bs. \<not> sameAnchor cmp spinePos (b_cfi b) (b_cfi b') \<and>
                   \<not> sameAnchor cmp spinePos (b_cfi b') (b_cfi b)) \<and>
      atMostOnePerAnchor cmp spinePos bs)"

definition bookmarksAt ::
  "(string \<Rightarrow> string \<Rightarrow> int) \<Rightarrow> (string \<Rightarrow> int) \<Rightarrow> string \<Rightarrow> Bookmark list \<Rightarrow> Bookmark list" where
  "bookmarksAt cmp spinePos P bookmarks =
     filter (\<lambda>b. sameAnchor cmp spinePos P (b_cfi b)) bookmarks"

subsection \<open>Example data\<close>

text \<open>
  A comparison that is consistent, for the examples: the order of the tokens' texts. On
  the tokens below it agrees with their order in the document.
\<close>

definition textCompare :: "string \<Rightarrow> string \<Rightarrow> int" where
  "textCompare a b = (if a < b then -1 else if b < a then 1 else 0)"

definition chapters22to27 :: "ChapterPosition list" where
  "chapters22to27 =
     [anchored ''22'' ''epubcfi(/6/14!/4/44)'', anchored ''23'' ''epubcfi(/6/14!/4/46)'',
      anchored ''24'' ''epubcfi(/6/14!/4/48)'', anchored ''25'' ''epubcfi(/6/14!/4/50)'',
      anchored ''26'' ''epubcfi(/6/14!/4/52)'', anchored ''27'' ''epubcfi(/6/14!/4/54)'']"

definition bookmarkAt :: "string \<Rightarrow> string \<Rightarrow> Bookmark" where
  "bookmarkAt ident cfi =
     \<lparr>b_id = ident, b_bookId = ''moby-dick'', b_cfi = cfi, b_excerpt = ''Call me Ishmael.'',
      b_createdAt = 1\<rparr>"

definition highlightAt :: "string \<Rightarrow> string \<Rightarrow> Highlight" where
  "highlightAt ident cfiRange =
     \<lparr>h_id = ident, h_bookId = ''moby-dick'', h_cfiRange = cfiRange, h_text = ''the chief mate'',
      h_color = Yellow, h_note = None, h_createdAt = 1, h_updatedAt = 1\<rparr>"

text \<open>A chapter tree with nested entries that share a file.\<close>

definition mobyToc :: "NavItem list" where
  "mobyToc =
     [NavItem ''np-1'' ''chapter_001.xhtml'' ''Chapter 1'' None,
      NavItem ''np-2'' ''chapter_022.xhtml'' ''Part 2''
        (Some [NavItem ''np-3'' ''chapter_022.xhtml#ch22'' ''Chapter 22'' (Some []),
               NavItem ''np-4'' ''chapter_022.xhtml#ch23'' ''Chapter 23'' None,
               NavItem ''np-5'' ''chapter_028.xhtml'' ''Chapter 28'' None])]"

text \<open>
  A book of four sections: the file of the second cannot be loaded and the third throws
  on \<^verbatim>\<open>find\<close>.
\<close>

definition loadedSection :: "string \<Rightarrow> EpubSearchMatch list \<Rightarrow> Section" where
  "loadedSection href matches =
     \<lparr>s_href = href, s_document = None, s_load = Inr (Some (\<lambda>anchor. None)),
      s_cfiFromElement = (\<lambda>element. Inl (Exception ''no such element'')),
      s_find = (\<lambda>query. Inr matches)\<rparr>"

definition missingSection :: "string \<Rightarrow> Section" where
  "missingSection href =
     \<lparr>s_href = href, s_document = None, s_load = Inl (Exception ''File not found''),
      s_cfiFromElement = (\<lambda>element. Inl (Exception ''no such element'')),
      s_find = (\<lambda>query. Inr [])\<rparr>"

definition unsearchableSection :: "string \<Rightarrow> Section" where
  "unsearchableSection href =
     \<lparr>s_href = href, s_document = None, s_load = Inr None,
      s_cfiFromElement = (\<lambda>element. Inl (Exception ''no such element'')),
      s_find = (\<lambda>query. Inl (Exception ''document is undefined''))\<rparr>"

definition mobyRendition :: Rendition where
  "mobyRendition =
     \<lparr>rendition_book =
        \<lparr>bk_toc = Some mobyToc,
         bk_spine =
           [loadedSection ''OEBPS/chapter_001.xhtml''
              [\<lparr>m_cfi = ''epubcfi(/6/4!/4/2/1:8)'', m_excerpt = ''the whale''\<rparr>],
            missingSection ''OEBPS/chapter_022.xhtml'',
            unsearchableSection ''OEBPS/cover.xhtml'',
            loadedSection ''OEBPS/chapter_028.xhtml''
              [\<lparr>m_cfi = ''epubcfi(/6/16!/4/2/1:3)'', m_excerpt = ''a whale ship''\<rparr>,
               \<lparr>m_cfi = ''epubcfi(/6/16!/4/6/1:0)'', m_excerpt = ''whales''\<rparr>]]\<rparr>\<rparr>"

text \<open>
  The strings that look like a CFI, for the examples, and a section whose document has the
  anchors of chapters 22 and 23.
\<close>

definition cfiText :: "string \<Rightarrow> bool" where
  "cfiText s \<longleftrightarrow> prefix ''epubcfi('' s \<and> suffix '')'' s"



text \<open>
  A chapter tree with an entry that has no file portion and an entry whose file portion
  is the end of another file's name.
\<close>

definition chapter21Toc :: "NavItem list" where
  "chapter21Toc =
     [NavItem ''np-1'' ''1.xhtml'' ''Chapter 1'' None,
      NavItem ''np-2'' ''#top'' ''Contents'' None,
      NavItem ''np-3'' ''21.xhtml#start'' ''Chapter 21'' None,
      NavItem ''np-4'' ''22.xhtml'' ''Chapter 22'' None]"

text \<open>Tokens placed in section 6 in the order of their texts.\<close>

definition textPlace :: "string \<Rightarrow> int \<times> string" where
  "textPlace s = (6, s)"

text \<open>A selection waiting for its color, an open book, and the same book bookmarked.\<close>

definition selectionPending :: NotesHook where
  "selectionPending =
     \<lparr>nt_bookId = ''moby-dick'', nt_highlights = [],
      nt_highlightPopup = Some
        \<lparr>p_position = (120, 240), p_isNew = True, p_stage = ColorPicker, p_highlightId = None,
         p_cfiRange = ''epubcfi(/6/14!/4/52,/1:0,/1:14)'', p_text = ''the chief mate'',
         p_color = Yellow, p_note = None\<rparr>,
      nt_annotations = Some [], nt_selection = True, nt_store = Map.empty, nt_calls = []\<rparr>"

definition readingChapter26 :: BookmarksHook where
  "readingChapter26 =
     \<lparr>bm_bookId = ''moby-dick'', bm_location = Some ''epubcfi(/6/14!/4/52)'',
      bm_bookmarks = [bookmarkAt ''a'' ''epubcfi(/6/14!/4/44)''],
      bm_getRange = Some (\<lambda>cfi. Inr (Some (Some ''  The chief mate of the Pequod''))),
      bm_store = [''a'' \<mapsto> bookmarkAt ''a'' ''epubcfi(/6/14!/4/44)'']\<rparr>"

definition bookmarkedChapter26 :: BookmarksHook where
  "bookmarkedChapter26 =
     readingChapter26
       \<lparr>bm_bookmarks := [bookmarkAt ''a'' ''epubcfi(/6/14!/4/44)'',
                         bookmarkAt ''b'' ''epubcfi(/6/14!/4/52)''],
        bm_store := [''a'' \<mapsto> bookmarkAt ''a'' ''epubcfi(/6/14!/4/44)'',
                     ''b'' \<mapsto> bookmarkAt ''b'' ''epubcfi(/6/14!/4/52)'']\<rparr>"

section \<open>Properties\<close>

subsection \<open>Consistent comparisons\<close>

lemma textCompare_consistent: "consistent_compare textCompare"
  unfolding consistent_compare_def textCompare_def by auto

lemma consistent_compare_key:
  "consistent_compare cmp \<Longrightarrow> consistent_compare (\<lambda>a b. cmp (k a) (k b))"
  unfolding consistent_compare_def by blast

lemma consistent_compare_eq0:
  "consistent_compare cmp \<Longrightarrow> (cmp a b = 0) = (cmp b a = 0)"
  unfolding consistent_compare_def by (metis less_int_code(1) linorder_neqE_linordered_idom)

lemma consistent_compare_total:
  "consistent_compare cmp \<Longrightarrow> 0 < cmp a b \<Longrightarrow> cmp b a < 0"
  unfolding consistent_compare_def by simp

lemma consistent_compare_trans:
  "consistent_compare cmp \<Longrightarrow> cmp a b \<le> 0 \<Longrightarrow> cmp b c \<le> 0 \<Longrightarrow> cmp a c \<le> 0"
  unfolding consistent_compare_def by blast

lemma consistent_compare_neg:
  assumes "consistent_compare cmp"
  shows "consistent_compare (\<lambda>a b. - cmp a b)"
proof -
  have r: "\<And>a. cmp a a = 0" using assms unfolding consistent_compare_def by blast
  have s: "\<And>a b. (cmp a b < 0) = (0 < cmp b a)" using assms unfolding consistent_compare_def by blast
  have t: "\<And>a b c. cmp a b \<le> 0 \<Longrightarrow> cmp b c \<le> 0 \<Longrightarrow> cmp a c \<le> 0"
    using assms unfolding consistent_compare_def by blast
  have t': "\<And>a b c. 0 \<le> cmp a b \<Longrightarrow> 0 \<le> cmp b c \<Longrightarrow> 0 \<le> cmp a c"
  proof -
    fix a b c assume "0 \<le> cmp a b" "0 \<le> cmp b c"
    then have "cmp b a \<le> 0" "cmp c b \<le> 0" using s by (metis not_less)+
    then have "cmp c a \<le> 0" using t by blast
    then show "0 \<le> cmp a c" using s by (metis not_less)
  qed
  show ?thesis unfolding consistent_compare_def using r s t' by auto
qed

subsection \<open>Sorting\<close>

lemma mset_sort_insert: "mset (sort_insert f x ys) = add_mset x (mset ys)"
  by (induction ys) auto

lemma mset_array_sort: "mset (array_sort f xs) = mset xs"
  by (induction xs) (auto simp: mset_sort_insert)

lemma set_sort_insert: "set (sort_insert f x ys) = insert x (set ys)"
  by (induction ys) auto

lemma set_array_sort: "set (array_sort f xs) = set xs"
  by (induction xs) (auto simp: set_sort_insert)

lemma length_array_sort: "length (array_sort f xs) = length xs"
  using mset_array_sort [of f xs] by (metis size_mset)

lemma sorted_sort_insert:
  assumes "consistent_compare f" "sorted_wrt (\<lambda>a b. f a b \<le> 0) ys"
  shows "sorted_wrt (\<lambda>a b. f a b \<le> 0) (sort_insert f x ys)"
  using assms(2)
proof (induction ys)
  case Nil
  then show ?case by simp
next
  case (Cons y ys)
  show ?case
  proof (cases "f x y \<le> 0")
    case True
    then have "\<forall>z\<in>set ys. f x z \<le> 0"
      using Cons.prems consistent_compare_trans [OF assms(1)] by auto
    with True Cons.prems show ?thesis by simp
  next
    case False
    then have "f y x \<le> 0" using consistent_compare_total [OF assms(1), of x y] by simp
    with False Cons show ?thesis by (auto simp: set_sort_insert)
  qed
qed

lemma sorted_array_sort:
  "consistent_compare f \<Longrightarrow> sorted_wrt (\<lambda>a b. f a b \<le> 0) (array_sort f xs)"
  by (induction xs) (auto simp: sorted_sort_insert)

lemma sort_insert_sorted_id:
  "\<forall>y\<in>set ys. f x y \<le> 0 \<Longrightarrow> sort_insert f x ys = x # ys"
  by (cases ys) auto

lemma array_sort_sorted_id:
  "sorted_wrt (\<lambda>a b. f a b \<le> 0) xs \<Longrightarrow> array_sort f xs = xs"
  by (induction xs) (auto simp: sort_insert_sorted_id)

lemma filter_sort_insert:
  assumes "P x \<Longrightarrow> \<forall>y\<in>set ys. 0 < f x y \<longrightarrow> \<not> P y"
  shows "filter P (sort_insert f x ys) = (if P x then x # filter P ys else filter P ys)"
  using assms by (induction ys) auto

lemma filter_array_sort_stable:
  assumes "\<And>x y. P x \<Longrightarrow> 0 < f x y \<Longrightarrow> \<not> P y"
  shows "filter P (array_sort f xs) = filter P xs"
proof (induction xs)
  case Nil
  then show ?case by simp
next
  case (Cons x xs)
  have "filter P (sort_insert f x (array_sort f xs)) =
        (if P x then x # filter P (array_sort f xs) else filter P (array_sort f xs))"
    by (rule filter_sort_insert) (use assms in blast)
  with Cons show ?case by simp
qed

lemma sort_insert_map:
  "sort_insert (\<lambda>a b. g (snd a) (snd b)) (x, k x) (map (\<lambda>i. (i, k i)) ys) =
   map (\<lambda>i. (i, k i)) (sort_insert (\<lambda>a b. g (k a) (k b)) x ys)"
  by (induction ys) auto

lemma array_sort_map:
  "array_sort (\<lambda>a b. g (snd a) (snd b)) (map (\<lambda>i. (i, k i)) xs) =
   map (\<lambda>i. (i, k i)) (array_sort (\<lambda>a b. g (k a) (k b)) xs)"
  by (induction xs) (auto simp: sort_insert_map)

lemma sortByCfi_array_sort:
  "sortByCfi cmp ts items getCfi = array_sort (\<lambda>a b. - cmp (ts (getCfi a)) (ts (getCfi b))) items"
proof -
  have "array_sort (\<lambda>a b. - cmp (snd a) (snd b)) (map (\<lambda>i. (i, ts (getCfi i))) items) =
        map (\<lambda>i. (i, ts (getCfi i))) (array_sort (\<lambda>a b. - cmp (ts (getCfi a)) (ts (getCfi b))) items)"
    using array_sort_map [of "\<lambda>a b. - cmp a b" "\<lambda>i. ts (getCfi i)" items] by simp
  then show ?thesis by (simp add: sortByCfi_def o_def)
qed

lemma sortByCfi_props:
  assumes "consistent_compare cmp"
  shows "mset (sortByCfi cmp ts items getCfi) = mset items"
    and "sorted_wrt (\<lambda>a b. 0 \<le> cmp (ts (getCfi a)) (ts (getCfi b))) (sortByCfi cmp ts items getCfi)"
    and "filter (\<lambda>i. cmp (ts (getCfi i)) p = 0) (sortByCfi cmp ts items getCfi) =
         filter (\<lambda>i. cmp (ts (getCfi i)) p = 0) items"
    and "sorted_wrt (\<lambda>a b. 0 \<le> cmp (ts (getCfi a)) (ts (getCfi b))) items \<Longrightarrow>
         sortByCfi cmp ts items getCfi = items"
    and "sortByCfi cmp ts (sortByCfi cmp ts items getCfi) getCfi = sortByCfi cmp ts items getCfi"
proof -
  let ?k = "\<lambda>i. ts (getCfi i)"
  let ?g = "\<lambda>a b. - cmp (?k a) (?k b)"
  have cg: "consistent_compare ?g"
    using consistent_compare_key [OF consistent_compare_neg [OF assms], of ?k] by simp
  show "mset (sortByCfi cmp ts items getCfi) = mset items"
    by (simp add: sortByCfi_array_sort mset_array_sort)
  have s: "sorted_wrt (\<lambda>a b. ?g a b \<le> 0) (array_sort ?g items)"
    by (rule sorted_array_sort [OF cg])
  then show sd: "sorted_wrt (\<lambda>a b. 0 \<le> cmp (?k a) (?k b)) (sortByCfi cmp ts items getCfi)"
    by (simp add: sortByCfi_array_sort)
  have st: "\<And>x y. cmp (?k x) p = 0 \<Longrightarrow> 0 < ?g x y \<Longrightarrow> cmp (?k y) p \<noteq> 0"
  proof
    fix x y assume x: "cmp (?k x) p = 0" and lt: "0 < ?g x y" and y: "cmp (?k y) p = 0"
    from x have "cmp p (?k x) = 0" using consistent_compare_eq0 [OF assms] by blast
    with y have "cmp (?k y) (?k x) \<le> 0"
      using consistent_compare_trans [OF assms, of "?k y" p "?k x"] by simp
    moreover from lt have "0 < cmp (?k y) (?k x)"
      using assms unfolding consistent_compare_def by simp
    ultimately show False by simp
  qed
  show "filter (\<lambda>i. cmp (?k i) p = 0) (sortByCfi cmp ts items getCfi) =
        filter (\<lambda>i. cmp (?k i) p = 0) items"
    unfolding sortByCfi_array_sort
    by (rule filter_array_sort_stable) (use st in blast)
  show id: "sorted_wrt (\<lambda>a b. 0 \<le> cmp (?k a) (?k b)) items \<Longrightarrow> sortByCfi cmp ts items getCfi = items" for items
    unfolding sortByCfi_array_sort by (rule array_sort_sorted_id) simp
  show "sortByCfi cmp ts (sortByCfi cmp ts items getCfi) getCfi = sortByCfi cmp ts items getCfi"
    by (rule id [OF sd])
qed


subsection \<open>The scan of findChapterForMatch\<close>

lemma scanChapters_takeWhile:
  "scanChapters cmp m xs best =
     (case takeWhile (atOrBefore cmp m) xs of [] \<Rightarrow> best | y # ys \<Rightarrow> last (y # ys))"
proof (induction xs arbitrary: best)
  case Nil
  then show ?case by simp
next
  case (Cons x xs)
  then show ?case by (auto simp: atOrBefore_def split: list.splits)
qed

lemma takeWhile_eq_filter_sorted:
  assumes "sorted_wrt R xs" "\<And>a b. R a b \<Longrightarrow> P b \<Longrightarrow> P a"
  shows "takeWhile P xs = filter P xs"
  using assms(1)
proof (induction xs)
  case Nil
  then show ?case by simp
next
  case (Cons x xs)
  show ?case
  proof (cases "P x")
    case True
    with Cons show ?thesis by simp
  next
    case False
    then have "\<forall>y\<in>set xs. \<not> P y" using Cons.prems assms(2) by auto
    then have "filter P xs = []" by (simp add: filter_empty_conv)
    with False show ?thesis by simp
  qed
qed

lemma sortedChapters_sorted:
  "consistent_compare cmp \<Longrightarrow>
   sorted_wrt (\<lambda>a b. cmp (the (cp_cfi a)) (the (cp_cfi b)) \<le> 0) (sortedChapters cmp cs)"
  unfolding sortedChapters_def
  using sorted_array_sort [OF consistent_compare_key, of cmp "\<lambda>c. the (cp_cfi c)" cs] by simp

lemma findChapterForMatch_ranked:
  assumes "2 \<le> length (filter resolved chapters)"
  shows "findChapterForMatch cmp m chapters fb =
     cp_label (scanChapters cmp m (sortedChapters cmp (filter resolved chapters))
                 (hd (sortedChapters cmp (filter resolved chapters))))"
proof -
  let ?r = "filter (\<lambda>c. cp_cfi c \<noteq> None) chapters"
  have r: "?r = filter resolved chapters"
    by (rule filter_cong) (simp_all add: resolved_def)
  have "2 \<le> length chapters"
    using assms length_filter_le [of resolved chapters] by linarith
  then have l: "length chapters \<noteq> 0" "length chapters \<noteq> 1" by linarith+
  have lr: "length ?r \<noteq> 0" using assms unfolding r by linarith
  have "length (sortedChapters cmp ?r) \<noteq> 0"
    unfolding sortedChapters_def length_array_sort by (rule lr)
  then have h: "sortedChapters cmp ?r ! 0 = hd (sortedChapters cmp ?r)"
    by (simp add: hd_conv_nth)
  have "findChapterForMatch cmp m chapters fb =
        cp_label (scanChapters cmp m (sortedChapters cmp ?r) (sortedChapters cmp ?r ! 0))"
    unfolding findChapterForMatch_def Let_def using l lr by (simp only: if_False simp_thms)
  then show ?thesis using h unfolding r by (simp only:)
qed

lemma scan_sorted_last:
  assumes cc: "consistent_compare cmp"
    and ex: "\<exists>c\<in>set cs. atOrBefore cmp m c"
  shows "scanChapters cmp m (sortedChapters cmp cs) best =
         last (filter (atOrBefore cmp m) (sortedChapters cmp cs))"
    and "filter (atOrBefore cmp m) (sortedChapters cmp cs) \<noteq> []"
proof -
  let ?s = "sortedChapters cmp cs"
  have tw: "takeWhile (atOrBefore cmp m) ?s = filter (atOrBefore cmp m) ?s"
  proof (rule takeWhile_eq_filter_sorted [OF sortedChapters_sorted [OF cc]])
    fix a b :: ChapterPosition
    assume "cmp (the (cp_cfi a)) (the (cp_cfi b)) \<le> 0" "atOrBefore cmp m b"
    then show "atOrBefore cmp m a"
      unfolding atOrBefore_def using consistent_compare_trans [OF cc] by blast
  qed
  have "set ?s = set cs" unfolding sortedChapters_def by (rule set_array_sort)
  with ex show ne: "filter (atOrBefore cmp m) ?s \<noteq> []"
    by (auto simp: filter_empty_conv)
  then show "scanChapters cmp m ?s best = last (filter (atOrBefore cmp m) ?s)"
    unfolding scanChapters_takeWhile tw by (auto split: list.splits)
qed

lemma last_filter_sorted_max:
  assumes "sorted_wrt R xs" "filter P xs \<noteq> []" "\<And>a. R a a"
  shows "\<forall>c\<in>set xs. P c \<longrightarrow> R c (last (filter P xs))"
proof -
  have s: "sorted_wrt R (filter P xs)" using assms(1) by (rule sorted_wrt_filter)
  have "\<forall>c\<in>set ys. R c (last ys)" if "sorted_wrt R ys" "ys \<noteq> []" for ys
    using that
  proof (induction ys)
    case Nil
    then show ?case by simp
  next
    case (Cons y ys)
    then show ?case using assms(3) by (cases ys) auto
  qed
  from this [OF s assms(2)] show ?thesis by auto
qed

lemma findChapterForMatch_general:
  assumes cc: "consistent_compare cmp"
    and two: "2 \<le> length (filter resolved chapters)"
    and ex: "\<exists>c\<in>set chapters. resolved c \<and> atOrBefore cmp m c"
  shows "(let sorted = sortedChapters cmp (filter resolved chapters);
              best = last (filter (atOrBefore cmp m) sorted)
          in mset sorted = mset (filter resolved chapters) \<and>
             sorted_wrt (\<lambda>a b. cmp (the (cp_cfi a)) (the (cp_cfi b)) \<le> 0) sorted \<and>
             findChapterForMatch cmp m chapters fb = cp_label best \<and>
             best \<in> set chapters \<and> resolved best \<and> atOrBefore cmp m best \<and>
             (\<forall>c\<in>set chapters. resolved c \<and> atOrBefore cmp m c \<longrightarrow>
                cmp (the (cp_cfi c)) (the (cp_cfi best)) \<le> 0))"
proof -
  let ?r = "filter resolved chapters"
  let ?s = "sortedChapters cmp ?r"
  let ?b = "last (filter (atOrBefore cmp m) ?s)"
  have ex': "\<exists>c\<in>set ?r. atOrBefore cmp m c" using ex by auto
  have ms: "mset ?s = mset ?r" unfolding sortedChapters_def by (rule mset_array_sort)
  have st: "set ?s = set ?r" unfolding sortedChapters_def by (rule set_array_sort)
  have so: "sorted_wrt (\<lambda>a b. cmp (the (cp_cfi a)) (the (cp_cfi b)) \<le> 0) ?s"
    by (rule sortedChapters_sorted [OF cc])
  have ne: "filter (atOrBefore cmp m) ?s \<noteq> []" by (rule scan_sorted_last(2) [OF cc ex'])
  have res: "findChapterForMatch cmp m chapters fb = cp_label ?b"
    unfolding findChapterForMatch_ranked [OF two] scan_sorted_last(1) [OF cc ex'] ..
  have "?b \<in> set (filter (atOrBefore cmp m) ?s)" using ne by (rule last_in_set)
  then have mem: "?b \<in> set chapters" "resolved ?b" "atOrBefore cmp m ?b"
    using st by auto
  have refl: "\<And>a::ChapterPosition. cmp (the (cp_cfi a)) (the (cp_cfi a)) \<le> 0"
    using cc unfolding consistent_compare_def by simp
  have "\<forall>c\<in>set ?s. atOrBefore cmp m c \<longrightarrow> cmp (the (cp_cfi c)) (the (cp_cfi ?b)) \<le> 0"
    by (rule last_filter_sorted_max [OF so ne refl])
  then have mx: "\<forall>c\<in>set chapters. resolved c \<and> atOrBefore cmp m c \<longrightarrow>
                   cmp (the (cp_cfi c)) (the (cp_cfi ?b)) \<le> 0"
    using st by auto
  show ?thesis unfolding Let_def using ms so res mem mx by blast
qed

lemma findChapterForMatch_scenario:
  assumes cc: "consistent_compare cmp"
    and o: "cmp a22 a23 < 0" "cmp a23 a24 < 0" "cmp a24 a25 < 0" "cmp a25 a26 < 0"
      "cmp a26 a27 < 0"
    and m: "cmp a26 m \<le> 0" "0 < cmp a27 m"
  shows "findChapterForMatch cmp m
           [anchored ''22'' a22, anchored ''23'' a23, anchored ''24'' a24,
            anchored ''25'' a25, anchored ''26'' a26, anchored ''27'' a27] fb = ''26''"
proof -
  let ?cs = "[anchored ''22'' a22, anchored ''23'' a23, anchored ''24'' a24,
              anchored ''25'' a25, anchored ''26'' a26, anchored ''27'' a27]"
  note t = consistent_compare_trans [OF cc]
  have le: "cmp a22 a23 \<le> 0" "cmp a23 a24 \<le> 0" "cmp a24 a25 \<le> 0" "cmp a25 a26 \<le> 0"
    "cmp a26 a27 \<le> 0" using o by simp_all
  have c5: "cmp a25 a27 \<le> 0" using t [OF le(4) le(5)] .
  have c4: "cmp a24 a26 \<le> 0" "cmp a24 a27 \<le> 0" using t [OF le(3) le(4)] t [OF le(3) c5] .
  have c3: "cmp a23 a25 \<le> 0" "cmp a23 a26 \<le> 0" "cmp a23 a27 \<le> 0"
    using t [OF le(2) le(3)] t [OF le(2) c4(1)] t [OF le(2) c4(2)] .
  have c2: "cmp a22 a24 \<le> 0" "cmp a22 a25 \<le> 0" "cmp a22 a26 \<le> 0" "cmp a22 a27 \<le> 0"
    using t [OF le(1) le(2)] t [OF le(1) c3(1)] t [OF le(1) c3(2)] t [OF le(1) c3(3)] .
  have r: "filter resolved ?cs = ?cs" by (simp add: resolved_def anchored_def)
  have "sorted_wrt (\<lambda>a b. cmp (the (cp_cfi a)) (the (cp_cfi b)) \<le> 0) ?cs"
    using le c5 c4 c3 c2 by (simp add: anchored_def)
  then have s: "sortedChapters cmp ?cs = ?cs"
    unfolding sortedChapters_def by (rule array_sort_sorted_id)
  have b: "cmp a22 m \<le> 0" "cmp a23 m \<le> 0" "cmp a24 m \<le> 0" "cmp a25 m \<le> 0"
    using t [OF c2(3) m(1)] t [OF c3(2) m(1)] t [OF c4(1) m(1)] t [OF le(4) m(1)] .
  have f: "filter (atOrBefore cmp m) ?cs =
           [anchored ''22'' a22, anchored ''23'' a23, anchored ''24'' a24,
            anchored ''25'' a25, anchored ''26'' a26]"
    using b m by (simp add: atOrBefore_def anchored_def)
  have ex: "\<exists>c\<in>set ?cs. atOrBefore cmp m c"
    using m(1) by (simp add: atOrBefore_def anchored_def)
  have two: "2 \<le> length (filter resolved ?cs)" unfolding r by simp
  have "findChapterForMatch cmp m ?cs fb =
        cp_label (last (filter (atOrBefore cmp m) (sortedChapters cmp ?cs)))"
    using findChapterForMatch_ranked [OF two, of cmp m fb] scan_sorted_last(1) [OF cc ex]
    unfolding r by simp
  then show ?thesis unfolding s f by (simp add: anchored_def)
qed

subsection \<open>Chapter attribution\<close>

text \<open>
  Claim C1. With a consistent comparison, when at least two chapters of the section have a
  resolved position and one of them is at or before the match, \<open>findChapterForMatch\<close>
  returns the label of the last chapter at or before the match in the ascending order of
  the resolved positions; that chapter is one of the chapters given, and every resolved
  chapter at or before the match is at or before it. For a section holding chapters 22 to
  27 with anchors in strictly ascending order, a match at or after the anchor of chapter 26
  and before the anchor of chapter 27 gets the label \<open>26\<close>.
\<close>

theorem findChapterForMatch_last_at_or_before:
  assumes "consistent_compare cmp"
  shows "(2 \<le> length (filter resolved chapters) \<and>
          (\<exists>c\<in>set chapters. resolved c \<and> atOrBefore cmp matchCfi c) \<longrightarrow>
          (let sorted = sortedChapters cmp (filter resolved chapters);
               best = last (filter (atOrBefore cmp matchCfi) sorted)
           in mset sorted = mset (filter resolved chapters) \<and>
              sorted_wrt (\<lambda>a b. cmp (the (cp_cfi a)) (the (cp_cfi b)) \<le> 0) sorted \<and>
              findChapterForMatch cmp matchCfi chapters fallbackLabel = cp_label best \<and>
              best \<in> set chapters \<and> resolved best \<and> atOrBefore cmp matchCfi best \<and>
              (\<forall>c\<in>set chapters. resolved c \<and> atOrBefore cmp matchCfi c \<longrightarrow>
                 cmp (the (cp_cfi c)) (the (cp_cfi best)) \<le> 0))) \<and>
         (cmp a22 a23 < 0 \<and> cmp a23 a24 < 0 \<and> cmp a24 a25 < 0 \<and> cmp a25 a26 < 0 \<and>
          cmp a26 a27 < 0 \<and> cmp a26 m \<le> 0 \<and> 0 < cmp a27 m \<longrightarrow>
          findChapterForMatch cmp m
            [anchored ''22'' a22, anchored ''23'' a23, anchored ''24'' a24,
             anchored ''25'' a25, anchored ''26'' a26, anchored ''27'' a27] fallbackLabel = ''26'')"
  using findChapterForMatch_general [OF assms, of chapters matchCfi fallbackLabel]
    findChapterForMatch_scenario [OF assms, of a22 a23 a24 a25 a26 a27 m fallbackLabel]
  by blast

text \<open>The scenario on example tokens.\<close>

theorem findChapterForMatch_last_at_or_before_witness:
  "consistent_compare textCompare \<and>
   2 \<le> length (filter resolved chapters22to27) \<and>
   (\<exists>c\<in>set chapters22to27. resolved c \<and> atOrBefore textCompare ''epubcfi(/6/14!/4/52/1:5)'' c) \<and>
   textCompare ''epubcfi(/6/14!/4/52)'' ''epubcfi(/6/14!/4/52/1:5)'' \<le> 0 \<and>
   0 < textCompare ''epubcfi(/6/14!/4/54)'' ''epubcfi(/6/14!/4/52/1:5)'' \<and>
   findChapterForMatch textCompare ''epubcfi(/6/14!/4/52/1:5)'' chapters22to27
     ''OEBPS/chapter_022.xhtml'' = ''26'' \<and>
   findChapterForMatch textCompare ''epubcfi(/6/14!/4/52/1:5)'' chapters22to27
     ''OEBPS/chapter_022.xhtml'' =
     cp_label (last (filter (atOrBefore textCompare ''epubcfi(/6/14!/4/52/1:5)'')
       (sortedChapters textCompare (filter resolved chapters22to27))))"
proof -
  have two: "2 \<le> length (filter resolved chapters22to27)"
    by (simp add: chapters22to27_def resolved_def anchored_def)
  have ex: "\<exists>c\<in>set chapters22to27. resolved c \<and> atOrBefore textCompare ''epubcfi(/6/14!/4/52/1:5)'' c"
    by (simp add: chapters22to27_def resolved_def anchored_def atOrBefore_def textCompare_def)
  have o: "textCompare ''epubcfi(/6/14!/4/44)'' ''epubcfi(/6/14!/4/46)'' < 0"
    "textCompare ''epubcfi(/6/14!/4/46)'' ''epubcfi(/6/14!/4/48)'' < 0"
    "textCompare ''epubcfi(/6/14!/4/48)'' ''epubcfi(/6/14!/4/50)'' < 0"
    "textCompare ''epubcfi(/6/14!/4/50)'' ''epubcfi(/6/14!/4/52)'' < 0"
    "textCompare ''epubcfi(/6/14!/4/52)'' ''epubcfi(/6/14!/4/54)'' < 0"
    "textCompare ''epubcfi(/6/14!/4/52)'' ''epubcfi(/6/14!/4/52/1:5)'' \<le> 0"
    "0 < textCompare ''epubcfi(/6/14!/4/54)'' ''epubcfi(/6/14!/4/52/1:5)''"
    by (simp_all add: textCompare_def)
  show ?thesis
    using findChapterForMatch_last_at_or_before [OF textCompare_consistent,
        of chapters22to27 "''epubcfi(/6/14!/4/52/1:5)''" "''OEBPS/chapter_022.xhtml''"
          "''epubcfi(/6/14!/4/44)''" "''epubcfi(/6/14!/4/46)''" "''epubcfi(/6/14!/4/48)''"
          "''epubcfi(/6/14!/4/50)''" "''epubcfi(/6/14!/4/52)''" "''epubcfi(/6/14!/4/54)''"
          "''epubcfi(/6/14!/4/52/1:5)''"]
      textCompare_consistent two ex o
    unfolding chapters22to27_def [symmetric] Let_def by blast
qed

lemma scanChapters_first_after:
  "\<not> atOrBefore cmp m x \<Longrightarrow> scanChapters cmp m (x # xs) best = best"
  by (simp add: atOrBefore_def)

text \<open>
  Claim C10. With a consistent comparison, when at least two chapters have a resolved
  position and the match lies strictly before every resolved anchor, \<open>findChapterForMatch\<close>
  returns the label of the first chapter of the ascending order, the value \<open>bestMatch\<close>
  starts with: a chapter at or before every resolved chapter, although it is not at or
  before the match.
\<close>

theorem findChapterForMatch_before_every_anchor:
  assumes cc: "consistent_compare cmp"
    and two: "2 \<le> length (filter resolved chapters)"
    and after: "\<forall>c\<in>set chapters. resolved c \<longrightarrow> 0 < cmp (the (cp_cfi c)) matchCfi"
  shows "(let earliest = hd (sortedChapters cmp (filter resolved chapters))
          in findChapterForMatch cmp matchCfi chapters fallbackLabel = cp_label earliest \<and>
             earliest \<in> set chapters \<and> resolved earliest \<and>
             \<not> atOrBefore cmp matchCfi earliest \<and>
             (\<forall>c\<in>set chapters. resolved c \<longrightarrow>
                cmp (the (cp_cfi earliest)) (the (cp_cfi c)) \<le> 0))"
proof -
  let ?r = "filter resolved chapters"
  let ?s = "sortedChapters cmp ?r"
  have st: "set ?s = set ?r" unfolding sortedChapters_def by (rule set_array_sort)
  have "length ?s = length ?r" unfolding sortedChapters_def by (rule length_array_sort)
  with two have ne: "?s \<noteq> []" by auto
  then obtain x xs where s: "?s = x # xs" by (cases ?s) auto
  have x: "x \<in> set chapters" "resolved x" using st s by auto
  then have na: "\<not> atOrBefore cmp matchCfi x" using after by (auto simp: atOrBefore_def)
  have so: "sorted_wrt (\<lambda>a b. cmp (the (cp_cfi a)) (the (cp_cfi b)) \<le> 0) ?s"
    by (rule sortedChapters_sorted [OF cc])
  have refl: "cmp (the (cp_cfi x)) (the (cp_cfi x)) \<le> 0"
    using cc unfolding consistent_compare_def by simp
  have "\<forall>c\<in>set ?s. cmp (the (cp_cfi x)) (the (cp_cfi c)) \<le> 0"
    using so refl unfolding s by auto
  then have mn: "\<forall>c\<in>set chapters. resolved c \<longrightarrow> cmp (the (cp_cfi x)) (the (cp_cfi c)) \<le> 0"
    using st by auto
  have "findChapterForMatch cmp matchCfi chapters fallbackLabel = cp_label x"
    unfolding findChapterForMatch_ranked [OF two] s list.sel
      scanChapters_first_after [OF na] ..
  then show ?thesis unfolding Let_def s using x na mn by simp
qed

text \<open>A match before the anchor of chapter 22 gets the label \<open>22\<close>.\<close>

theorem findChapterForMatch_before_every_anchor_witness:
  "consistent_compare textCompare \<and>
   2 \<le> length (filter resolved chapters22to27) \<and>
   list_all (\<lambda>c. 0 < textCompare (the (cp_cfi c)) ''epubcfi(/6/14!/4/2/1:0)'')
     (filter resolved chapters22to27) \<and>
   hd (sortedChapters textCompare (filter resolved chapters22to27)) =
     anchored ''22'' ''epubcfi(/6/14!/4/44)'' \<and>
   findChapterForMatch textCompare ''epubcfi(/6/14!/4/2/1:0)'' chapters22to27
     ''OEBPS/chapter_022.xhtml'' = ''22''"
proof -
  have two: "2 \<le> length (filter resolved chapters22to27)"
    by (simp add: chapters22to27_def resolved_def anchored_def)
  have after: "\<forall>c\<in>set chapters22to27. resolved c \<longrightarrow>
      0 < textCompare (the (cp_cfi c)) ''epubcfi(/6/14!/4/2/1:0)''"
    by (simp add: chapters22to27_def resolved_def anchored_def textCompare_def)
  have h: "hd (sortedChapters textCompare (filter resolved chapters22to27)) =
           anchored ''22'' ''epubcfi(/6/14!/4/44)''"
    by (simp add: chapters22to27_def resolved_def anchored_def sortedChapters_def textCompare_def)
  show ?thesis
    using findChapterForMatch_before_every_anchor [OF textCompare_consistent two after,
        of "''OEBPS/chapter_022.xhtml''"]
      textCompare_consistent two after h
    by (simp add: Let_def anchored_def list_all_iff)
qed

text \<open>
  Claim C6. Without any matched chapter \<open>findChapterForMatch\<close> returns the fallback label
  of the section; with exactly one matched chapter, or with matched chapters none of which
  has a resolved position, it returns the label of the first matched chapter.
\<close>

theorem findChapterForMatch_fallbacks:
  "(chapters = [] \<longrightarrow> findChapterForMatch cmp matchCfi chapters fallbackLabel = fallbackLabel) \<and>
   (length chapters = 1 \<or> (chapters \<noteq> [] \<and> filter resolved chapters = []) \<longrightarrow>
      findChapterForMatch cmp matchCfi chapters fallbackLabel = cp_label (hd chapters))"
proof -
  have r: "filter (\<lambda>c. cp_cfi c \<noteq> None) chapters = filter resolved chapters"
    by (rule filter_cong) (simp_all add: resolved_def)
  have h: "chapters \<noteq> [] \<Longrightarrow> chapters ! 0 = hd chapters" by (simp add: hd_conv_nth)
  show ?thesis
    unfolding findChapterForMatch_def Let_def r using h by (cases chapters) auto
qed

text \<open>No chapter, one chapter, and two chapters without a position.\<close>

theorem findChapterForMatch_fallbacks_witness:
  "findChapterForMatch textCompare ''epubcfi(/6/14!/4/52/1:5)'' [] ''OEBPS/chapter_022.xhtml'' =
     ''OEBPS/chapter_022.xhtml'' \<and>
   length [anchored ''Chapter 27'' ''epubcfi(/6/14!/4/54)''] = 1 \<and>
   findChapterForMatch textCompare ''epubcfi(/6/14!/4/52/1:5)''
     [anchored ''Chapter 27'' ''epubcfi(/6/14!/4/54)''] ''OEBPS/chapter_022.xhtml'' = ''Chapter 27'' \<and>
   filter resolved [\<lparr>cp_label = ''Chapter 22'', cp_cfi = None\<rparr>,
     \<lparr>cp_label = ''Chapter 23'', cp_cfi = None\<rparr>] = [] \<and>
   findChapterForMatch textCompare ''epubcfi(/6/14!/4/52/1:5)''
     [\<lparr>cp_label = ''Chapter 22'', cp_cfi = None\<rparr>, \<lparr>cp_label = ''Chapter 23'', cp_cfi = None\<rparr>]
     ''OEBPS/chapter_022.xhtml'' = ''Chapter 22''"
  using findChapterForMatch_fallbacks [of "[]" textCompare "''epubcfi(/6/14!/4/52/1:5)''"
      "''OEBPS/chapter_022.xhtml''"]
    findChapterForMatch_fallbacks [of "[anchored ''Chapter 27'' ''epubcfi(/6/14!/4/54)'']"
      textCompare "''epubcfi(/6/14!/4/52/1:5)''" "''OEBPS/chapter_022.xhtml''"]
    findChapterForMatch_fallbacks [of "[\<lparr>cp_label = ''Chapter 22'', cp_cfi = None\<rparr>,
      \<lparr>cp_label = ''Chapter 23'', cp_cfi = None\<rparr>]"
      textCompare "''epubcfi(/6/14!/4/52/1:5)''" "''OEBPS/chapter_022.xhtml''"]
  by (simp add: resolved_def anchored_def)

subsection \<open>Positions: ordering and equality\<close>

lemma sortByCfi_stable_descending:
  "consistent_compare cmp \<Longrightarrow>
   stable_descending cmp (\<lambda>i. ts (getCfi i)) items (sortByCfi cmp ts items getCfi)"
  unfolding stable_descending_def
  using sortByCfi_props(1,2,3) [where cmp=cmp and ts=ts and items=items and getCfi=getCfi]
  by blast

text \<open>
  Claim C8. With a consistent comparison, \<open>sortBookmarksByPosition\<close> and
  \<open>sortHighlightsByPosition\<close> return their argument in stable descending order of position:
  the same items, most advanced first, the items at one position in their original order.
  Sorting the result again returns it unchanged, as does sorting any list that is already
  in descending order.
\<close>

theorem sortByCfi_stable_descending_idempotent:
  assumes "consistent_compare cmp"
  shows "stable_descending cmp (\<lambda>b. cfiToString (b_cfi b)) bookmarks
           (sortBookmarksByPosition cmp cfiToString bookmarks) \<and>
         sortBookmarksByPosition cmp cfiToString
           (sortBookmarksByPosition cmp cfiToString bookmarks) =
           sortBookmarksByPosition cmp cfiToString bookmarks \<and>
         (sorted_wrt (\<lambda>a b. 0 \<le> cmp (cfiToString (b_cfi a)) (cfiToString (b_cfi b))) bookmarks \<longrightarrow>
            sortBookmarksByPosition cmp cfiToString bookmarks = bookmarks) \<and>
         stable_descending cmp (\<lambda>h. cfiToString (h_cfiRange h)) highlights
           (sortHighlightsByPosition cmp cfiToString highlights) \<and>
         sortHighlightsByPosition cmp cfiToString
           (sortHighlightsByPosition cmp cfiToString highlights) =
           sortHighlightsByPosition cmp cfiToString highlights \<and>
         (sorted_wrt (\<lambda>a b. 0 \<le> cmp (cfiToString (h_cfiRange a)) (cfiToString (h_cfiRange b)))
            highlights \<longrightarrow>
            sortHighlightsByPosition cmp cfiToString highlights = highlights)"
  unfolding sortBookmarksByPosition_def sortHighlightsByPosition_def
  using sortByCfi_stable_descending [OF assms, where ts=cfiToString and getCfi=b_cfi
      and items=bookmarks]
    sortByCfi_stable_descending [OF assms, where ts=cfiToString and getCfi=h_cfiRange
      and items=highlights]
    sortByCfi_props(4,5) [OF assms, where ts=cfiToString and getCfi=b_cfi and items=bookmarks]
    sortByCfi_props(4,5) [OF assms, where ts=cfiToString and getCfi=h_cfiRange
      and items=highlights]
  by blast

text \<open>Two bookmarks at one position keep their order behind a more advanced one.\<close>

theorem sortByCfi_stable_descending_idempotent_witness:
  "consistent_compare textCompare \<and>
   sortBookmarksByPosition textCompare (\<lambda>s. s)
     [bookmarkAt ''a'' ''epubcfi(/6/14!/4/44)'', bookmarkAt ''b'' ''epubcfi(/6/14!/4/52)'',
      bookmarkAt ''c'' ''epubcfi(/6/14!/4/44)''] =
     [bookmarkAt ''b'' ''epubcfi(/6/14!/4/52)'', bookmarkAt ''a'' ''epubcfi(/6/14!/4/44)'',
      bookmarkAt ''c'' ''epubcfi(/6/14!/4/44)''] \<and>
   sorted_wrt (\<lambda>a b. 0 \<le> textCompare (b_cfi a) (b_cfi b))
     [bookmarkAt ''b'' ''epubcfi(/6/14!/4/52)'', bookmarkAt ''a'' ''epubcfi(/6/14!/4/44)'',
      bookmarkAt ''c'' ''epubcfi(/6/14!/4/44)''] \<and>
   sortBookmarksByPosition textCompare (\<lambda>s. s)
     [bookmarkAt ''b'' ''epubcfi(/6/14!/4/52)'', bookmarkAt ''a'' ''epubcfi(/6/14!/4/44)'',
      bookmarkAt ''c'' ''epubcfi(/6/14!/4/44)''] =
     [bookmarkAt ''b'' ''epubcfi(/6/14!/4/52)'', bookmarkAt ''a'' ''epubcfi(/6/14!/4/44)'',
      bookmarkAt ''c'' ''epubcfi(/6/14!/4/44)''] \<and>
   sorted_wrt (\<lambda>a b. 0 \<le> textCompare (h_cfiRange a) (h_cfiRange b))
     [highlightAt ''x'' ''epubcfi(/6/14!/4/52)'', highlightAt ''y'' ''epubcfi(/6/14!/4/44)''] \<and>
   sortHighlightsByPosition textCompare (\<lambda>s. s)
     [highlightAt ''x'' ''epubcfi(/6/14!/4/52)'', highlightAt ''y'' ''epubcfi(/6/14!/4/44)''] =
     [highlightAt ''x'' ''epubcfi(/6/14!/4/52)'', highlightAt ''y'' ''epubcfi(/6/14!/4/44)'']"
proof -
  have s1: "sortBookmarksByPosition textCompare (\<lambda>s. s)
     [bookmarkAt ''a'' ''epubcfi(/6/14!/4/44)'', bookmarkAt ''b'' ''epubcfi(/6/14!/4/52)'',
      bookmarkAt ''c'' ''epubcfi(/6/14!/4/44)''] =
     [bookmarkAt ''b'' ''epubcfi(/6/14!/4/52)'', bookmarkAt ''a'' ''epubcfi(/6/14!/4/44)'',
      bookmarkAt ''c'' ''epubcfi(/6/14!/4/44)'']"
    by (simp add: sortBookmarksByPosition_def sortByCfi_def bookmarkAt_def textCompare_def)
  have s2: "sorted_wrt (\<lambda>a b. 0 \<le> textCompare (b_cfi a) (b_cfi b))
     [bookmarkAt ''b'' ''epubcfi(/6/14!/4/52)'', bookmarkAt ''a'' ''epubcfi(/6/14!/4/44)'',
      bookmarkAt ''c'' ''epubcfi(/6/14!/4/44)'']"
    by (simp add: bookmarkAt_def textCompare_def)
  have s3: "sorted_wrt (\<lambda>a b. 0 \<le> textCompare (h_cfiRange a) (h_cfiRange b))
     [highlightAt ''x'' ''epubcfi(/6/14!/4/52)'', highlightAt ''y'' ''epubcfi(/6/14!/4/44)'']"
    by (simp add: highlightAt_def textCompare_def)
  show ?thesis
    using sortByCfi_stable_descending_idempotent [OF textCompare_consistent,
        where cfiToString="\<lambda>s. s"
        and bookmarks="[bookmarkAt ''b'' ''epubcfi(/6/14!/4/52)'',
          bookmarkAt ''a'' ''epubcfi(/6/14!/4/44)'', bookmarkAt ''c'' ''epubcfi(/6/14!/4/44)'']"
        and highlights="[highlightAt ''x'' ''epubcfi(/6/14!/4/52)'',
          highlightAt ''y'' ''epubcfi(/6/14!/4/44)'']"]
      textCompare_consistent s1 s2 s3
    by blast
qed

lemma specCompare_consistent: "consistent_compare (specCompare place)"
  unfolding consistent_compare_def specCompare_def
  by (auto simp: prod_eq_iff split: if_splits)

lemma specCompare_zero: "specCompare place a b = 0 \<longleftrightarrow> place a = place b"
  unfolding specCompare_def by (auto simp: prod_eq_iff)

text \<open>
  Claim C9. With the comparison and the section index as the spec describes them, the
  test of \<open>isLocationBookmarked\<close> (same section index and comparison zero) holds exactly
  between tokens of the same place: it holds between any position and itself and does not
  depend on the order of its two arguments; so \<open>isLocationBookmarked\<close> finds a bookmark
  whenever one is stored at exactly the current, non-empty position.
\<close>

theorem sameAnchor_reflexive_symmetric:
  "sameAnchor (specCompare place) (specSectionIndex place) p p \<and>
   sameAnchor (specCompare place) (specSectionIndex place) a b =
     sameAnchor (specCompare place) (specSectionIndex place) b a \<and>
   sameAnchor (specCompare place) (specSectionIndex place) a b = (place a = place b) \<and>
   (p \<noteq> [] \<and> bookmark \<in> set bookmarks \<and> b_cfi bookmark = p \<longrightarrow>
      (\<exists>found. isLocationBookmarked (specCompare place) (specSectionIndex place) (Some p)
                 bookmarks = Some found \<and>
               found \<in> set bookmarks \<and>
               sameAnchor (specCompare place) (specSectionIndex place) p (b_cfi found)))"
proof -
  let ?same = "sameAnchor (specCompare place) (specSectionIndex place)"
  have e: "?same x y = (place x = place y)" for x y
    unfolding sameAnchor_def specSectionIndex_def specCompare_zero by auto
  have f: "\<exists>x\<in>set bs. ?same q (b_cfi x) \<Longrightarrow>
           \<exists>found. firstSameAnchor (specCompare place) (specSectionIndex place) q bs = Some found \<and>
                   found \<in> set bs \<and> ?same q (b_cfi found)" for q bs
    by (induction bs) auto
  have "p \<noteq> [] \<and> bookmark \<in> set bookmarks \<and> b_cfi bookmark = p \<longrightarrow>
        (\<exists>found. isLocationBookmarked (specCompare place) (specSectionIndex place) (Some p)
                   bookmarks = Some found \<and>
                 found \<in> set bookmarks \<and> ?same p (b_cfi found))"
    using f [of bookmarks p] e [of p p] by (auto simp: isLocationBookmarked_def)
  moreover have "?same p p" "?same a b = ?same b a" "?same a b = (place a = place b)"
    using e by auto
  ultimately show ?thesis by blast
qed

text \<open>A bookmark at the current position, behind another one, is found.\<close>

theorem sameAnchor_reflexive_symmetric_witness:
  "sameAnchor (specCompare textPlace) (specSectionIndex textPlace)
     ''epubcfi(/6/14!/4/52)'' ''epubcfi(/6/14!/4/52)'' \<and>
   \<not> sameAnchor (specCompare textPlace) (specSectionIndex textPlace)
     ''epubcfi(/6/14!/4/44)'' ''epubcfi(/6/14!/4/52)'' \<and>
   \<not> sameAnchor (specCompare textPlace) (specSectionIndex textPlace)
     ''epubcfi(/6/14!/4/52)'' ''epubcfi(/6/14!/4/44)'' \<and>
   ''epubcfi(/6/14!/4/52)'' \<noteq> [] \<and>
   bookmarkAt ''b'' ''epubcfi(/6/14!/4/52)'' \<in>
     set [bookmarkAt ''a'' ''epubcfi(/6/14!/4/44)'', bookmarkAt ''b'' ''epubcfi(/6/14!/4/52)''] \<and>
   b_cfi (bookmarkAt ''b'' ''epubcfi(/6/14!/4/52)'') = ''epubcfi(/6/14!/4/52)'' \<and>
   isLocationBookmarked (specCompare textPlace) (specSectionIndex textPlace)
     (Some ''epubcfi(/6/14!/4/52)'')
     [bookmarkAt ''a'' ''epubcfi(/6/14!/4/44)'', bookmarkAt ''b'' ''epubcfi(/6/14!/4/52)''] =
     Some (bookmarkAt ''b'' ''epubcfi(/6/14!/4/52)'')"
proof -
  have m: "bookmarkAt ''b'' ''epubcfi(/6/14!/4/52)'' \<in>
     set [bookmarkAt ''a'' ''epubcfi(/6/14!/4/44)'', bookmarkAt ''b'' ''epubcfi(/6/14!/4/52)'']"
    by simp
  have c: "b_cfi (bookmarkAt ''b'' ''epubcfi(/6/14!/4/52)'') = ''epubcfi(/6/14!/4/52)''"
    by (simp add: bookmarkAt_def)
  have n: "''epubcfi(/6/14!/4/52)'' \<noteq> []" by simp
  have d: "textPlace ''epubcfi(/6/14!/4/44)'' \<noteq> textPlace ''epubcfi(/6/14!/4/52)''"
    by (simp add: textPlace_def)
  have v: "isLocationBookmarked (specCompare textPlace) (specSectionIndex textPlace)
     (Some ''epubcfi(/6/14!/4/52)'')
     [bookmarkAt ''a'' ''epubcfi(/6/14!/4/44)'', bookmarkAt ''b'' ''epubcfi(/6/14!/4/52)''] =
     Some (bookmarkAt ''b'' ''epubcfi(/6/14!/4/52)'')"
    by (simp add: isLocationBookmarked_def sameAnchor_def specCompare_def specSectionIndex_def
        textPlace_def bookmarkAt_def)
  show ?thesis
    using sameAnchor_reflexive_symmetric [where place=textPlace
        and p="''epubcfi(/6/14!/4/52)''"
        and a="''epubcfi(/6/14!/4/44)''" and b="''epubcfi(/6/14!/4/52)''"
        and bookmark="bookmarkAt ''b'' ''epubcfi(/6/14!/4/52)''"
        and bookmarks="[bookmarkAt ''a'' ''epubcfi(/6/14!/4/44)'',
          bookmarkAt ''b'' ''epubcfi(/6/14!/4/52)'']"]
      m c n d v
    by auto
qed

subsection \<open>Chapter entries of a section\<close>

lemma split_hash_nonempty: "split_hash s \<noteq> []"
  by (induction s) (auto split: list.splits)

lemma hd_split_hash: "hd (split_hash s) = filePortion s"
  unfolding filePortion_def
  by (induction s) (auto split: list.splits simp: split_hash_nonempty)

lemma str_includes_sublist: "str_includes s t = sublist t s"
  by (induction s) (auto simp: sublist_Cons_right)

lemma tocHrefMatches_fileOccursIn: "tocHrefMatches spineHref = fileOccursIn spineHref"
proof
  fix item
  show "tocHrefMatches spineHref item = fileOccursIn spineHref item"
    unfolding tocHrefMatches_def fileOccursIn_def Let_def hd_split_hash str_includes_sublist
    using suffix_imp_sublist by blast
qed

lemma targetsSection_fileOccursIn:
  "targetsSection spineHref entry \<Longrightarrow> fileOccursIn spineHref entry"
  unfolding targetsSection_def fileOccursIn_def Let_def
  by (auto dest: suffix_ConsD suffix_imp_sublist)

lemma traverse_collects:
  "traverse spineHref items matches =
     matches @ filter (tocHrefMatches spineHref) (concat (map entryWithDescendants items))"
  "traverse_item spineHref item matches =
     matches @ filter (tocHrefMatches spineHref) (entryWithDescendants item)"
proof (induction spineHref items matches and spineHref item matches
    rule: traverse_traverse_item.induct)
  case (1 spineHref matches)
  show ?case by simp
next
  case (2 spineHref item items matches)
  then show ?case by simp
next
  case (3 spineHref i h l subs matches)
  show ?case
  proof (cases subs)
    case None
    then show ?thesis by simp
  next
    case (Some children)
    show ?thesis
    proof (cases "length children \<noteq> 0")
      case True
      then show ?thesis using Some 3 [OF refl Some] by (auto simp add: Let_def)
    next
      case False
      then show ?thesis using Some by simp
    qed
  qed
qed

text \<open>
  Claim C7, as stated, fails: for the section \<open>OEBPS/21.xhtml\<close> the entries with the hrefs
  \<open>1.xhtml\<close> and \<open>#top\<close> are collected, and neither targets the section.
\<close>

theorem getMatchingTocEntries_collects_more:
  "getMatchingTocEntries chapter21Toc ''OEBPS/21.xhtml'' =
     [NavItem ''np-1'' ''1.xhtml'' ''Chapter 1'' None,
      NavItem ''np-2'' ''#top'' ''Contents'' None,
      NavItem ''np-3'' ''21.xhtml#start'' ''Chapter 21'' None] \<and>
   filter (targetsSection ''OEBPS/21.xhtml'') (tocEntries chapter21Toc) =
     [NavItem ''np-3'' ''21.xhtml#start'' ''Chapter 21'' None] \<and>
   getMatchingTocEntries chapter21Toc ''OEBPS/21.xhtml'' \<noteq>
     filter (targetsSection ''OEBPS/21.xhtml'') (tocEntries chapter21Toc)"
  by (simp add: getMatchingTocEntries_def chapter21Toc_def tocHrefMatches_def Let_def
      suffix_to_prefix targetsSection_def tocEntries_def filePortion_def)

text \<open>
  Claim C7, amended. \<open>getMatchingTocEntries\<close> returns, in traversal order, exactly the
  entries of the chapter tree, nested ones at any depth included, whose file portion (the
  href without its anchor) occurs somewhere in the section's href. Every entry that
  targets the section is among them, in traversal order; an entry with an empty file
  portion, or one whose file portion is only a part of the section's file name, is
  collected as well.
\<close>

theorem getMatchingTocEntries_collects:
  "getMatchingTocEntries toc spineHref = filter (fileOccursIn spineHref) (tocEntries toc) \<and>
   filter (targetsSection spineHref) (getMatchingTocEntries toc spineHref) =
     filter (targetsSection spineHref) (tocEntries toc) \<and>
   (\<forall>entry\<in>set (tocEntries toc).
      targetsSection spineHref entry \<longrightarrow> entry \<in> set (getMatchingTocEntries toc spineHref))"
proof -
  have c: "getMatchingTocEntries toc spineHref = filter (fileOccursIn spineHref) (tocEntries toc)"
    unfolding getMatchingTocEntries_def tocEntries_def traverse_collects(1)
      tocHrefMatches_fileOccursIn by simp
  have "filter (targetsSection spineHref) (filter (fileOccursIn spineHref) (tocEntries toc)) =
        filter (targetsSection spineHref) (tocEntries toc)"
    unfolding filter_filter
    by (rule filter_cong) (auto dest: targetsSection_fileOccursIn)
  with c show ?thesis by (auto dest: targetsSection_fileOccursIn)
qed

text \<open>The part entry and its two chapters in the section's file are collected.\<close>

theorem getMatchingTocEntries_collects_witness:
  "getMatchingTocEntries mobyToc ''OEBPS/chapter_022.xhtml'' =
     [NavItem ''np-2'' ''chapter_022.xhtml'' ''Part 2''
        (Some [NavItem ''np-3'' ''chapter_022.xhtml#ch22'' ''Chapter 22'' (Some []),
               NavItem ''np-4'' ''chapter_022.xhtml#ch23'' ''Chapter 23'' None,
               NavItem ''np-5'' ''chapter_028.xhtml'' ''Chapter 28'' None]),
      NavItem ''np-3'' ''chapter_022.xhtml#ch22'' ''Chapter 22'' (Some []),
      NavItem ''np-4'' ''chapter_022.xhtml#ch23'' ''Chapter 23'' None] \<and>
   getMatchingTocEntries mobyToc ''OEBPS/chapter_022.xhtml'' =
     filter (fileOccursIn ''OEBPS/chapter_022.xhtml'') (tocEntries mobyToc) \<and>
   NavItem ''np-4'' ''chapter_022.xhtml#ch23'' ''Chapter 23'' None \<in> set (tocEntries mobyToc) \<and>
   targetsSection ''OEBPS/chapter_022.xhtml''
     (NavItem ''np-4'' ''chapter_022.xhtml#ch23'' ''Chapter 23'' None) \<and>
   NavItem ''np-4'' ''chapter_022.xhtml#ch23'' ''Chapter 23'' None \<in>
     set (getMatchingTocEntries mobyToc ''OEBPS/chapter_022.xhtml'')"
proof -
  have g: "getMatchingTocEntries mobyToc ''OEBPS/chapter_022.xhtml'' =
     [NavItem ''np-2'' ''chapter_022.xhtml'' ''Part 2''
        (Some [NavItem ''np-3'' ''chapter_022.xhtml#ch22'' ''Chapter 22'' (Some []),
               NavItem ''np-4'' ''chapter_022.xhtml#ch23'' ''Chapter 23'' None,
               NavItem ''np-5'' ''chapter_028.xhtml'' ''Chapter 28'' None]),
      NavItem ''np-3'' ''chapter_022.xhtml#ch22'' ''Chapter 22'' (Some []),
      NavItem ''np-4'' ''chapter_022.xhtml#ch23'' ''Chapter 23'' None]"
    by (simp add: getMatchingTocEntries_def mobyToc_def tocHrefMatches_def Let_def
        suffix_to_prefix)
  have m: "NavItem ''np-4'' ''chapter_022.xhtml#ch23'' ''Chapter 23'' None \<in>
      set (tocEntries mobyToc)"
    by (simp add: tocEntries_def mobyToc_def)
  have t: "targetsSection ''OEBPS/chapter_022.xhtml''
     (NavItem ''np-4'' ''chapter_022.xhtml#ch23'' ''Chapter 23'' None)"
    by (simp add: targetsSection_def filePortion_def suffix_to_prefix)
  note c = getMatchingTocEntries_collects [of mobyToc "''OEBPS/chapter_022.xhtml''"]
  have e: "getMatchingTocEntries mobyToc ''OEBPS/chapter_022.xhtml'' =
     filter (fileOccursIn ''OEBPS/chapter_022.xhtml'') (tocEntries mobyToc)"
    using c by blast
  have i: "NavItem ''np-4'' ''chapter_022.xhtml#ch23'' ''Chapter 23'' None \<in>
     set (getMatchingTocEntries mobyToc ''OEBPS/chapter_022.xhtml'')"
    using c m t by blast
  show ?thesis using g e m t i by blast
qed

subsection \<open>The exceptions of the EpubCFI constructor\<close>







subsection \<open>searchBook\<close>










text \<open>
  Claim C4. For a query shorter than two characters, the empty one included, \<open>searchBook\<close>
  returns the empty list of results and makes no call at all: no section is loaded and
  \<^verbatim>\<open>find\<close> is not invoked. The value is a result, not an error.
\<close>

theorem searchBook_short_query:
  "length query < 2 \<Longrightarrow> searchBook validCfi cmp rendition query = ([], [])"
  unfolding searchBook_def by simp

text \<open>A query of one character and the empty query.\<close>

theorem searchBook_short_query_witness:
  "length ''w'' < 2 \<and> searchBook cfiText textCompare mobyRendition ''w'' = ([], []) \<and>
   length '''' < 2 \<and> searchBook cfiText textCompare mobyRendition '''' = ([], [])"
  using searchBook_short_query [of "''w''" cfiText textCompare mobyRendition]
    searchBook_short_query [of "''''" cfiText textCompare mobyRendition]
  by simp




















subsection \<open>Highlights\<close>

lemma handleCancelHighlight_store:
  "nt_store (handleCancelHighlight w) = nt_store w"
  "nt_calls (handleCancelHighlight w) = nt_calls w"
  "nt_highlights (handleCancelHighlight w) = nt_highlights w"
  "nt_highlightPopup (handleCancelHighlight w) = None"
  unfolding handleCancelHighlight_def by (auto simp: Let_def split: option.splits)

text \<open>
  Claim C2. When a color is chosen for a new selection in the color-picker stage, with a
  rendition present and a fresh id, \<open>handleColorSelect\<close> issues \<open>createHighlight\<close> and the
  highlight, without a note, is in the store when the handler returns; the popup moves to
  the editing stage with the highlight's id. No update was issued, so this holds before any
  note is saved. \<open>handleCancelHighlight\<close> after it closes the popup, issues no store call
  and leaves the store as it is: the highlight is still there.
\<close>

theorem handleColorSelect_persists_at_color_choice:
  assumes "nt_highlightPopup w = Some popup"
    and "p_isNew popup" and "p_stage popup = ColorPicker"
    and "nt_annotations w = Some annotations"
    and "nt_store w uuid = None"
  shows "\<exists>w'. handleColorSelect uuid now color w = Inr w' \<and>
           nt_store w' uuid =
             Some \<lparr>h_id = uuid, h_bookId = nt_bookId w, h_cfiRange = p_cfiRange popup,
                   h_text = p_text popup, h_color = color, h_note = None,
                   h_createdAt = now, h_updatedAt = now\<rparr> \<and>
           nt_calls w' = nt_calls w @
             [CreateHighlightCall (nt_bookId w) (p_cfiRange popup) (p_text popup) color None] \<and>
           nt_highlightPopup w' =
             Some (popup\<lparr>p_isNew := False, p_stage := Editing, p_highlightId := Some uuid,
                         p_color := color, p_note := None\<rparr>) \<and>
           nt_store (handleCancelHighlight w') = nt_store w' \<and>
           nt_calls (handleCancelHighlight w') = nt_calls w' \<and>
           nt_highlightPopup (handleCancelHighlight w') = None \<and>
           nt_store (handleCancelHighlight w') uuid \<noteq> None"
  using assms unfolding handleColorSelect_def createHighlight_def
  by (simp add: Let_def handleCancelHighlight_store)

text \<open>Green is chosen for a pending selection, then the popup is cancelled.\<close>

theorem handleColorSelect_persists_at_color_choice_witness:
  "nt_highlightPopup selectionPending \<noteq> None \<and>
   p_isNew (the (nt_highlightPopup selectionPending)) \<and>
   p_stage (the (nt_highlightPopup selectionPending)) = ColorPicker \<and>
   nt_annotations selectionPending = Some [] \<and>
   nt_store selectionPending ''id-1'' = None \<and>
   (\<exists>w'. handleColorSelect ''id-1'' 1700 Green selectionPending = Inr w' \<and>
      nt_store w' ''id-1'' =
        Some \<lparr>h_id = ''id-1'', h_bookId = ''moby-dick'',
              h_cfiRange = ''epubcfi(/6/14!/4/52,/1:0,/1:14)'', h_text = ''the chief mate'',
              h_color = Green, h_note = None, h_createdAt = 1700, h_updatedAt = 1700\<rparr> \<and>
      nt_calls w' = [CreateHighlightCall ''moby-dick'' ''epubcfi(/6/14!/4/52,/1:0,/1:14)''
                       ''the chief mate'' Green None] \<and>
      nt_calls (handleCancelHighlight w') = nt_calls w' \<and>
      nt_store (handleCancelHighlight w') ''id-1'' \<noteq> None)"
proof -
  have p: "nt_highlightPopup selectionPending = Some
        \<lparr>p_position = (120, 240), p_isNew = True, p_stage = ColorPicker, p_highlightId = None,
         p_cfiRange = ''epubcfi(/6/14!/4/52,/1:0,/1:14)'', p_text = ''the chief mate'',
         p_color = Yellow, p_note = None\<rparr>"
    by (simp add: selectionPending_def)
  have a: "nt_annotations selectionPending = Some []" by (simp add: selectionPending_def)
  have s: "nt_store selectionPending ''id-1'' = None" by (simp add: selectionPending_def)
  have b: "nt_bookId selectionPending = ''moby-dick''" "nt_calls selectionPending = []"
    by (simp_all add: selectionPending_def)
  show ?thesis
    using handleColorSelect_persists_at_color_choice [OF p _ _ a s, of 1700 Green] p a s b
    by auto
qed

subsection \<open>Bookmarks\<close>

lemma firstSameAnchor_None:
  "firstSameAnchor cmp spinePos c bs = None \<longleftrightarrow>
   (\<forall>b\<in>set bs. \<not> sameAnchor cmp spinePos c (b_cfi b))"
  by (induction bs) auto

lemma firstSameAnchor_Some:
  "firstSameAnchor cmp spinePos c bs = Some x \<Longrightarrow>
   x \<in> set bs \<and> sameAnchor cmp spinePos c (b_cfi x)"
  by (induction bs) (auto split: if_splits)

lemma firstSameAnchor_append_new:
  "\<forall>b\<in>set bs. \<not> sameAnchor cmp spinePos c (b_cfi b) \<Longrightarrow>
   sameAnchor cmp spinePos c (b_cfi x) \<Longrightarrow>
   firstSameAnchor cmp spinePos c (bs @ [x]) = Some x"
  by (induction bs) auto

lemma atMostOnePerAnchor_filter:
  "atMostOnePerAnchor cmp spinePos bs \<Longrightarrow> atMostOnePerAnchor cmp spinePos (filter P bs)"
  by (induction bs) auto

lemma atMostOnePerAnchor_append:
  "atMostOnePerAnchor cmp spinePos bs \<Longrightarrow>
   \<forall>b\<in>set bs. \<not> sameAnchor cmp spinePos (b_cfi b) (b_cfi x) \<and>
             \<not> sameAnchor cmp spinePos (b_cfi x) (b_cfi b) \<Longrightarrow>
   atMostOnePerAnchor cmp spinePos (bs @ [x])"
  by (induction bs) auto

lemma sameAnchor_sym:
  "consistent_compare cmp \<Longrightarrow> sameAnchor cmp spinePos a b = sameAnchor cmp spinePos b a"
  unfolding sameAnchor_def using consistent_compare_eq0 [of cmp a b] by auto

lemma sameAnchor_refl: "consistent_compare cmp \<Longrightarrow> sameAnchor cmp spinePos a a"
  unfolding sameAnchor_def consistent_compare_def by simp

lemma toggle_existing:
  assumes "bm_location w = Some P" "P \<noteq> []"
    and "\<exists>b\<in>set (bm_bookmarks w). sameAnchor cmp spinePos P (b_cfi b)"
  shows "\<exists>existing\<in>set (bm_bookmarks w).
           sameAnchor cmp spinePos P (b_cfi existing) \<and>
           handleToggleBookmark cmp spinePos uuid now w =
             Inr (w\<lparr>bm_store := (bm_store w)(b_id existing := None),
                    bm_bookmarks := filter (\<lambda>b. b_id b \<noteq> b_id existing) (bm_bookmarks w)\<rparr>)"
proof -
  from assms(3) obtain e where e: "firstSameAnchor cmp spinePos P (bm_bookmarks w) = Some e"
    using firstSameAnchor_None [of cmp spinePos P "bm_bookmarks w"] by fastforce
  have "handleToggleBookmark cmp spinePos uuid now w =
          Inr (w\<lparr>bm_store := (bm_store w)(b_id e := None),
                 bm_bookmarks := filter (\<lambda>b. b_id b \<noteq> b_id e) (bm_bookmarks w)\<rparr>)"
    unfolding handleToggleBookmark_def isLocationBookmarked_def deleteBookmark_def
    using assms(1,2) e by simp
  with firstSameAnchor_Some [OF e] show ?thesis by blast
qed

lemma toggle_absent:
  assumes "bm_location w = Some P" "P \<noteq> []"
    and "\<forall>b\<in>set (bm_bookmarks w). \<not> sameAnchor cmp spinePos P (b_cfi b)"
    and "bm_store w uuid = None"
  shows "handleToggleBookmark cmp spinePos uuid now w =
           Inr (w\<lparr>bm_store := (bm_store w)(uuid \<mapsto>
                      \<lparr>b_id = uuid, b_bookId = bm_bookId w, b_cfi = P,
                       b_excerpt = extractExcerpt w P, b_createdAt = now\<rparr>),
                  bm_bookmarks := bm_bookmarks w @
                      [\<lparr>b_id = uuid, b_bookId = bm_bookId w, b_cfi = P,
                        b_excerpt = extractExcerpt w P, b_createdAt = now\<rparr>]\<rparr>)"
proof -
  have "firstSameAnchor cmp spinePos P (bm_bookmarks w) = None"
    using assms(3) firstSameAnchor_None by blast
  then show ?thesis
    unfolding handleToggleBookmark_def isLocationBookmarked_def createBookmark_def
    using assms(1,2,4) by (simp add: Let_def)
qed

lemma toggle_preserves:
  assumes cc: "consistent_compare cmp"
    and inv: "atMostOnePerAnchor cmp spinePos (bm_bookmarks w)"
    and res: "handleToggleBookmark cmp spinePos uuid now w = Inr w'"
  shows "atMostOnePerAnchor cmp spinePos (bm_bookmarks w')"
proof (cases "bm_location w")
  case None
  with res inv show ?thesis by (simp add: handleToggleBookmark_def)
next
  case (Some P)
  show ?thesis
  proof (cases "P = []")
    case True
    with Some res inv show ?thesis by (simp add: handleToggleBookmark_def)
  next
    case False
    show ?thesis
    proof (cases "\<exists>b\<in>set (bm_bookmarks w). sameAnchor cmp spinePos P (b_cfi b)")
      case True
      from toggle_existing [OF Some False True, of uuid now] res inv
      show ?thesis by (auto simp: atMostOnePerAnchor_filter)
    next
      case absent: False
      then have none: "firstSameAnchor cmp spinePos P (bm_bookmarks w) = None"
        using firstSameAnchor_None by blast
      let ?nb = "\<lparr>b_id = uuid, b_bookId = bm_bookId w, b_cfi = P,
                   b_excerpt = extractExcerpt w P, b_createdAt = now\<rparr>"
      have "bm_bookmarks w' = bm_bookmarks w @ [?nb]"
        using res Some False none
        unfolding handleToggleBookmark_def isLocationBookmarked_def createBookmark_def
        by (auto simp: Let_def split: if_splits)
      moreover have "\<forall>b\<in>set (bm_bookmarks w).
          \<not> sameAnchor cmp spinePos (b_cfi b) (b_cfi ?nb) \<and>
          \<not> sameAnchor cmp spinePos (b_cfi ?nb) (b_cfi b)"
        using absent sameAnchor_sym [OF cc] by simp
      ultimately show ?thesis using atMostOnePerAnchor_append [OF inv] by simp
    qed
  qed
qed

lemma toggle_twice:
  assumes cc: "consistent_compare cmp"
    and loc: "bm_location w = Some P" "P \<noteq> []"
    and fresh: "bm_store w uuid = None"
    and none: "bookmarksAt cmp spinePos P (bm_bookmarks w) = []"
  shows "\<exists>w1 w2. handleToggleBookmark cmp spinePos uuid now w = Inr w1 \<and>
           length (bookmarksAt cmp spinePos P (bm_bookmarks w1)) = 1 \<and>
           handleToggleBookmark cmp spinePos uuid2 now2 w1 = Inr w2 \<and>
           bookmarksAt cmp spinePos P (bm_bookmarks w2) = [] \<and>
           bm_store w2 = bm_store w \<and>
           ((\<forall>b\<in>set (bm_bookmarks w). b_id b \<noteq> uuid) \<longrightarrow> bm_bookmarks w2 = bm_bookmarks w)"
proof -
  let ?nb = "\<lparr>b_id = uuid, b_bookId = bm_bookId w, b_cfi = P,
               b_excerpt = extractExcerpt w P, b_createdAt = now\<rparr>"
  let ?w1 = "w\<lparr>bm_store := (bm_store w)(uuid \<mapsto> ?nb), bm_bookmarks := bm_bookmarks w @ [?nb]\<rparr>"
  let ?w2 = "?w1\<lparr>bm_store := (bm_store ?w1)(uuid := None),
                  bm_bookmarks := filter (\<lambda>b. b_id b \<noteq> uuid) (bm_bookmarks ?w1)\<rparr>"
  have absent: "\<forall>b\<in>set (bm_bookmarks w). \<not> sameAnchor cmp spinePos P (b_cfi b)"
    using none unfolding bookmarksAt_def by (simp add: filter_empty_conv)
  have t1: "handleToggleBookmark cmp spinePos uuid now w = Inr ?w1"
    by (rule toggle_absent [OF loc absent fresh])
  have here: "sameAnchor cmp spinePos P (b_cfi ?nb)" using sameAnchor_refl [OF cc] by simp
  have one: "length (bookmarksAt cmp spinePos P (bm_bookmarks ?w1)) = 1"
    using none here unfolding bookmarksAt_def by simp
  have f: "firstSameAnchor cmp spinePos P (bm_bookmarks ?w1) = Some ?nb"
    using firstSameAnchor_append_new [OF absent here] by simp
  have t2: "handleToggleBookmark cmp spinePos uuid2 now2 ?w1 = Inr ?w2"
    unfolding handleToggleBookmark_def isLocationBookmarked_def deleteBookmark_def
    using loc f by simp
  have z: "bookmarksAt cmp spinePos P (bm_bookmarks ?w2) = []"
    using absent unfolding bookmarksAt_def by (simp add: filter_empty_conv)
  have st: "bm_store ?w2 = bm_store w" using fresh by (simp add: fun_upd_idem)
  have same: "(\<forall>b\<in>set (bm_bookmarks w). b_id b \<noteq> uuid) \<longrightarrow> bm_bookmarks ?w2 = bm_bookmarks w"
    by (simp add: filter_id_conv)
  show ?thesis using t1 one t2 z st same by blast
qed

text \<open>
  Claim C3. With a consistent comparison and a non-empty current position \<open>P\<close>,
  \<open>handleToggleBookmark\<close> deletes, from the store and from the list, a bookmark with the
  same anchor as \<open>P\<close> when the list has one, and otherwise creates one at \<open>P\<close> under the
  fresh id. Every toggle that returns keeps the list at no more than one bookmark per
  anchor. Starting without a bookmark at \<open>P\<close>, the first toggle leaves exactly one bookmark
  at \<open>P\<close> and the second none, with the store as it was before.
\<close>

theorem handleToggleBookmark_toggles:
  assumes "consistent_compare cmp"
  shows "(bm_location w = Some P \<and> P \<noteq> [] \<longrightarrow>
            ((\<exists>b\<in>set (bm_bookmarks w). sameAnchor cmp spinePos P (b_cfi b)) \<longrightarrow>
               (\<exists>existing\<in>set (bm_bookmarks w).
                  sameAnchor cmp spinePos P (b_cfi existing) \<and>
                  handleToggleBookmark cmp spinePos uuid now w =
                    Inr (w\<lparr>bm_store := (bm_store w)(b_id existing := None),
                           bm_bookmarks :=
                             filter (\<lambda>b. b_id b \<noteq> b_id existing) (bm_bookmarks w)\<rparr>))) \<and>
            ((\<forall>b\<in>set (bm_bookmarks w). \<not> sameAnchor cmp spinePos P (b_cfi b)) \<and>
             bm_store w uuid = None \<longrightarrow>
               handleToggleBookmark cmp spinePos uuid now w =
                 Inr (w\<lparr>bm_store := (bm_store w)(uuid \<mapsto>
                            \<lparr>b_id = uuid, b_bookId = bm_bookId w, b_cfi = P,
                             b_excerpt = extractExcerpt w P, b_createdAt = now\<rparr>),
                        bm_bookmarks := bm_bookmarks w @
                            [\<lparr>b_id = uuid, b_bookId = bm_bookId w, b_cfi = P,
                              b_excerpt = extractExcerpt w P, b_createdAt = now\<rparr>]\<rparr>))) \<and>
         (atMostOnePerAnchor cmp spinePos (bm_bookmarks w) \<and>
          handleToggleBookmark cmp spinePos uuid now w = Inr w' \<longrightarrow>
            atMostOnePerAnchor cmp spinePos (bm_bookmarks w')) \<and>
         (bm_location w = Some P \<and> P \<noteq> [] \<and> bm_store w uuid = None \<and>
          bookmarksAt cmp spinePos P (bm_bookmarks w) = [] \<longrightarrow>
            (\<exists>w1 w2. handleToggleBookmark cmp spinePos uuid now w = Inr w1 \<and>
               length (bookmarksAt cmp spinePos P (bm_bookmarks w1)) = 1 \<and>
               handleToggleBookmark cmp spinePos uuid2 now2 w1 = Inr w2 \<and>
               bookmarksAt cmp spinePos P (bm_bookmarks w2) = [] \<and>
               bm_store w2 = bm_store w \<and>
               ((\<forall>b\<in>set (bm_bookmarks w). b_id b \<noteq> uuid) \<longrightarrow>
                  bm_bookmarks w2 = bm_bookmarks w)))"
  using toggle_existing [of w P cmp spinePos uuid now]
    toggle_absent [of w P cmp spinePos uuid now]
    toggle_preserves [OF assms, of spinePos w uuid now w']
    toggle_twice [OF assms, of w P uuid spinePos now uuid2 now2]
  by blast

text \<open>Chapter 26 is bookmarked and the bookmark removed again.\<close>

theorem handleToggleBookmark_toggles_witness:
  "consistent_compare textCompare \<and>
   bm_location readingChapter26 = Some ''epubcfi(/6/14!/4/52)'' \<and>
   ''epubcfi(/6/14!/4/52)'' \<noteq> [] \<and>
   bm_store readingChapter26 ''b'' = None \<and>
   bookmarksAt textCompare (\<lambda>c. 6) ''epubcfi(/6/14!/4/52)'' (bm_bookmarks readingChapter26) = [] \<and>
   atMostOnePerAnchor textCompare (\<lambda>c. 6) (bm_bookmarks readingChapter26) \<and>
   (\<exists>w1 w2. handleToggleBookmark textCompare (\<lambda>c. 6) ''b'' 1700 readingChapter26 = Inr w1 \<and>
      bm_bookmarks w1 =
        [bookmarkAt ''a'' ''epubcfi(/6/14!/4/44)'',
         \<lparr>b_id = ''b'', b_bookId = ''moby-dick'', b_cfi = ''epubcfi(/6/14!/4/52)'',
          b_excerpt = ''The chief mate of the Pequod'', b_createdAt = 1700\<rparr>] \<and>
      atMostOnePerAnchor textCompare (\<lambda>c. 6) (bm_bookmarks w1) \<and>
      length (bookmarksAt textCompare (\<lambda>c. 6) ''epubcfi(/6/14!/4/52)'' (bm_bookmarks w1)) = 1 \<and>
      handleToggleBookmark textCompare (\<lambda>c. 6) ''c'' 1800 w1 = Inr w2 \<and>
      bookmarksAt textCompare (\<lambda>c. 6) ''epubcfi(/6/14!/4/52)'' (bm_bookmarks w2) = [] \<and>
      bm_store w2 = bm_store readingChapter26 \<and>
      bm_bookmarks w2 = bm_bookmarks readingChapter26) \<and>
   (\<exists>b\<in>set (bm_bookmarks bookmarkedChapter26).
      sameAnchor textCompare (\<lambda>c. 6) ''epubcfi(/6/14!/4/52)'' (b_cfi b)) \<and>
   (\<exists>w'. handleToggleBookmark textCompare (\<lambda>c. 6) ''c'' 1800 bookmarkedChapter26 = Inr w' \<and>
      bm_bookmarks w' = [bookmarkAt ''a'' ''epubcfi(/6/14!/4/44)''] \<and>
      bm_store w' ''b'' = None)"
proof -
  let ?P = "''epubcfi(/6/14!/4/52)''"
  let ?sp = "\<lambda>c::string. 6::int"
  let ?nb = "\<lparr>b_id = ''b'', b_bookId = ''moby-dick'', b_cfi = ?P,
               b_excerpt = ''The chief mate of the Pequod'', b_createdAt = 1700\<rparr>"
  have l: "bm_location readingChapter26 = Some ?P" "?P \<noteq> []"
    "bm_location bookmarkedChapter26 = Some ?P"
    by (simp_all add: readingChapter26_def bookmarkedChapter26_def)
  have f: "bm_store readingChapter26 ''b'' = None" by (simp add: readingChapter26_def)
  have z: "bookmarksAt textCompare ?sp ?P (bm_bookmarks readingChapter26) = []"
    by (simp add: readingChapter26_def bookmarksAt_def sameAnchor_def bookmarkAt_def
        textCompare_def)
  have a: "\<forall>b\<in>set (bm_bookmarks readingChapter26). \<not> sameAnchor textCompare ?sp ?P (b_cfi b)"
    by (simp add: readingChapter26_def sameAnchor_def bookmarkAt_def textCompare_def)
  have i: "atMostOnePerAnchor textCompare ?sp (bm_bookmarks readingChapter26)"
    by (simp add: readingChapter26_def)
  have ids: "\<forall>b\<in>set (bm_bookmarks readingChapter26). b_id b \<noteq> ''b''"
    by (simp add: readingChapter26_def bookmarkAt_def)
  have e: "extractExcerpt readingChapter26 ?P = ''The chief mate of the Pequod''"
    by (simp add: extractExcerpt_def readingChapter26_def trim_def is_space_def)
  have x: "\<exists>b\<in>set (bm_bookmarks bookmarkedChapter26). sameAnchor textCompare ?sp ?P (b_cfi b)"
    by (simp add: bookmarkedChapter26_def sameAnchor_def bookmarkAt_def textCompare_def)
  have bk: "bm_bookmarks readingChapter26 = [bookmarkAt ''a'' ''epubcfi(/6/14!/4/44)'']"
    "bm_bookId readingChapter26 = ''moby-dick''"
    by (simp_all add: readingChapter26_def)
  note t = handleToggleBookmark_toggles [OF textCompare_consistent]
  have c1: "handleToggleBookmark textCompare ?sp ''b'' 1700 readingChapter26 =
      Inr (readingChapter26\<lparr>bm_store := (bm_store readingChapter26)(''b'' \<mapsto> ?nb),
             bm_bookmarks := bm_bookmarks readingChapter26 @ [?nb]\<rparr>)"
    using t [where w=readingChapter26 and P="?P" and spinePos="?sp" and uuid="''b''"
        and now=1700] l a f e bk
    by simp
  have inv1: "atMostOnePerAnchor textCompare ?sp (bm_bookmarks readingChapter26 @ [?nb])"
    using t [where w=readingChapter26 and P="?P" and spinePos="?sp" and uuid="''b''"
        and now=1700
        and w'="readingChapter26\<lparr>bm_store := (bm_store readingChapter26)(''b'' \<mapsto> ?nb),
             bm_bookmarks := bm_bookmarks readingChapter26 @ [?nb]\<rparr>"] i c1
    by simp
  have tw: "\<exists>w1 w2. handleToggleBookmark textCompare ?sp ''b'' 1700 readingChapter26 = Inr w1 \<and>
      length (bookmarksAt textCompare ?sp ?P (bm_bookmarks w1)) = 1 \<and>
      handleToggleBookmark textCompare ?sp ''c'' 1800 w1 = Inr w2 \<and>
      bookmarksAt textCompare ?sp ?P (bm_bookmarks w2) = [] \<and>
      bm_store w2 = bm_store readingChapter26 \<and>
      bm_bookmarks w2 = bm_bookmarks readingChapter26"
    using t [where w=readingChapter26 and P="?P" and spinePos="?sp" and uuid="''b''"
        and now=1700 and ?uuid2.0="''c''" and ?now2.0=1800] l f z ids
    by blast
  have first: "\<exists>w1 w2. handleToggleBookmark textCompare ?sp ''b'' 1700 readingChapter26 = Inr w1 \<and>
      bm_bookmarks w1 = [bookmarkAt ''a'' ''epubcfi(/6/14!/4/44)'', ?nb] \<and>
      atMostOnePerAnchor textCompare ?sp (bm_bookmarks w1) \<and>
      length (bookmarksAt textCompare ?sp ?P (bm_bookmarks w1)) = 1 \<and>
      handleToggleBookmark textCompare ?sp ''c'' 1800 w1 = Inr w2 \<and>
      bookmarksAt textCompare ?sp ?P (bm_bookmarks w2) = [] \<and>
      bm_store w2 = bm_store readingChapter26 \<and>
      bm_bookmarks w2 = bm_bookmarks readingChapter26"
    using tw c1 inv1 bk by auto
  have del: "\<exists>existing\<in>set (bm_bookmarks bookmarkedChapter26).
      sameAnchor textCompare ?sp ?P (b_cfi existing) \<and>
      handleToggleBookmark textCompare ?sp ''c'' 1800 bookmarkedChapter26 =
        Inr (bookmarkedChapter26\<lparr>bm_store := (bm_store bookmarkedChapter26)(b_id existing := None),
               bm_bookmarks := filter (\<lambda>b. b_id b \<noteq> b_id existing)
                 (bm_bookmarks bookmarkedChapter26)\<rparr>)"
    using t [where w=bookmarkedChapter26 and P="?P" and spinePos="?sp" and uuid="''c''"
        and now=1800] l x
    by blast
  have second: "\<exists>w'. handleToggleBookmark textCompare ?sp ''c'' 1800 bookmarkedChapter26 = Inr w' \<and>
      bm_bookmarks w' = [bookmarkAt ''a'' ''epubcfi(/6/14!/4/44)''] \<and> bm_store w' ''b'' = None"
    using del
    by (auto simp: bookmarkedChapter26_def sameAnchor_def bookmarkAt_def textCompare_def)
  show ?thesis
    using textCompare_consistent l f z i first x second by blast
qed

end
